theory Spec2Isabelle
  imports Complex_Main "HOL-Library.AList" "HOL-Library.Char_ord" "HOL-Library.List_Lexorder"
begin

section \<open>The operating system as the server sees it\<close>

text \<open>
  The server of \<^verbatim>\<open>main.go\<close> keeps every artifact as one file below a storage
  directory and reaches it through the Go packages \<^verbatim>\<open>os\<close>, \<^verbatim>\<open>io\<close> and
  \<^verbatim>\<open>path/filepath\<close>. These are modelled for a Unix system without symbolic links:
  a file system is a table from canonical locations (the list of names from the root) to
  nodes, a process has a working directory, and every call walks the path it is given
  the way the kernel does. Bytes are \<^typ>\<open>char\<close>s, a Go string and a byte slice are both
  a \<^typ>\<open>string\<close>.

  What the model leaves out: one request is served at a time (no interleaving of
  requests); permissions are one flag per node; names have no length limit; a file can
  be unlinked while it is open; file sizes are unbounded integers (an \<^verbatim>\<open>int64\<close> holds
  every size a file can have).
\<close>

type_synonym bytes = string

datatype errno = ENOENT | ENOTDIR | EISDIR | EACCES | ENOSPC | ENOTEMPTY | EBUSY | EIO | ECONNRESET

text \<open>
  An \<^verbatim>\<open>io.Reader\<close>: the bytes it delivers and how it ends, with \<^verbatim>\<open>io.EOF\<close>
  (\<open>None\<close>) or with an error after the bytes (a request body whose connection breaks).
\<close>

record reader =
  rdata :: bytes
  rfail :: "errno option"

text \<open>
  A node is a regular file with its content or a directory with the size \<^verbatim>\<open>stat\<close>
  reports for it. The flag says whether the server process holds the permissions on the
  node: reading and writing a file; searching a directory and adding or removing entries.
\<close>

datatype node = RegFile bool bytes | Directory bool int

text \<open>
  \<open>nodes\<close> is the table (the first entry of a location counts), \<open>cwd\<close> the working
  directory of the server process, and \<open>quota\<close> the number of bytes the device still
  accepts before a write fails (\<open>None\<close>: no limit).
\<close>

record filesystem =
  nodes :: "(string list \<times> node) list"
  cwd :: "string list"
  quota :: "nat option"

record FileInfo =
  info_Size :: int
  info_IsDir :: bool

subsection \<open>Path strings\<close>

fun split_on :: "char \<Rightarrow> string \<Rightarrow> string list" where
  "split_on c [] = [[]]"
| "split_on c (x # xs) =
     (if x = c then [] # split_on c xs
      else (case split_on c xs of [] \<Rightarrow> [[x]] | y # ys \<Rightarrow> (x # y) # ys))"

definition is_rooted :: "string \<Rightarrow> bool" where
  "is_rooted s = (case s of [] \<Rightarrow> False | c # _ \<Rightarrow> c = CHR ''/'')"

text \<open>The names between the separators of a path, empty ones dropped.\<close>

definition components :: "string \<Rightarrow> string list" where
  "components s = filter (\<lambda>c. c \<noteq> []) (split_on CHR ''/'' s)"

fun strings_Join :: "string list \<Rightarrow> string \<Rightarrow> string" where
  "strings_Join [] sep = []"
| "strings_Join [e] sep = e"
| "strings_Join (e # es) sep = e @ sep @ strings_Join es sep"

text \<open>
  \<^verbatim>\<open>filepath.Clean\<close>, by path elements: \<^verbatim>\<open>.\<close> elements go, an inner
  \<^verbatim>\<open>..\<close> goes together with the element before it, a \<^verbatim>\<open>..\<close> at the start of a
  rooted path goes, one at the start of a relative path stays.
\<close>

definition clean_step :: "bool \<Rightarrow> string list \<Rightarrow> string \<Rightarrow> string list" where
  "clean_step rooted out c =
     (if c = ''.'' then out
      else if c = ''..'' then
        (if out \<noteq> [] \<and> last out \<noteq> ''..'' then butlast out
         else if rooted then out
         else out @ [''..''])
      else out @ [c])"

definition clean_elems :: "string \<Rightarrow> string list" where
  "clean_elems s = foldl (clean_step (is_rooted s)) [] (components s)"

definition Clean :: "string \<Rightarrow> string" where
  "Clean s =
     (if is_rooted s then CHR ''/'' # strings_Join (clean_elems s) ''/''
      else if clean_elems s = [] then ''.''
      else strings_Join (clean_elems s) ''/'')"

text \<open>\<^verbatim>\<open>filepath.Join\<close>: leading empty elements are ignored, the rest is joined and cleaned.\<close>

fun filepath_Join :: "string list \<Rightarrow> string" where
  "filepath_Join [] = []"
| "filepath_Join (e # es) =
     (if e = [] then filepath_Join es else Clean (strings_Join (e # es) ''/''))"

subsection \<open>Path resolution\<close>

fun step_dir :: "string list \<Rightarrow> string \<Rightarrow> string list" where
  "step_dir cur c =
     (if c = ''.'' then cur else if c = ''..'' then butlast cur else cur @ [c])"

text \<open>
  Walking a list of names from a location: every location that a name is looked up in
  must be a directory the process may search.
\<close>

fun walk :: "filesystem \<Rightarrow> string list \<Rightarrow> string list \<Rightarrow> errno + string list" where
  "walk fs cur [] = Inr cur"
| "walk fs cur (c # cs) =
     (case map_of (nodes fs) cur of
        None \<Rightarrow> Inl ENOENT
      | Some (RegFile acc content) \<Rightarrow> Inl ENOTDIR
      | Some (Directory acc sz) \<Rightarrow>
          if acc then walk fs (step_dir cur c) cs else Inl EACCES)"

definition namei :: "filesystem \<Rightarrow> string \<Rightarrow> errno + string list" where
  "namei fs name =
     (if name = [] then Inl ENOENT
      else walk fs (if is_rooted name then [] else cwd fs) (components name))"

definition info_of :: "node \<Rightarrow> FileInfo" where
  "info_of n =
     (case n of
        RegFile acc content \<Rightarrow> \<lparr>info_Size = int (length content), info_IsDir = False\<rparr>
      | Directory acc sz \<Rightarrow> \<lparr>info_Size = sz, info_IsDir = True\<rparr>)"

subsection \<open>The calls of package os and io\<close>

definition os_Stat :: "filesystem \<Rightarrow> string \<Rightarrow> errno + FileInfo" where
  "os_Stat fs name =
     (case namei fs name of
        Inl e \<Rightarrow> Inl e
      | Inr p \<Rightarrow>
          (case map_of (nodes fs) p of
             None \<Rightarrow> Inl ENOENT
           | Some n \<Rightarrow> Inr (info_of n)))"

text \<open>\<^verbatim>\<open>os.IsNotExist\<close> holds of \<^verbatim>\<open>ENOENT\<close> alone.\<close>

definition os_IsNotExist :: "errno \<Rightarrow> bool" where
  "os_IsNotExist e = (e = ENOENT)"

text \<open>
  \<^verbatim>\<open>os.Open\<close> opens a file or a directory for reading. The open file is
  represented by its location.
\<close>

definition os_Open :: "filesystem \<Rightarrow> string \<Rightarrow> errno + string list" where
  "os_Open fs name =
     (case namei fs name of
        Inl e \<Rightarrow> Inl e
      | Inr p \<Rightarrow>
          (case map_of (nodes fs) p of
             None \<Rightarrow> Inl ENOENT
           | Some (RegFile acc content) \<Rightarrow> if acc then Inr p else Inl EACCES
           | Some (Directory acc sz) \<Rightarrow> if acc then Inr p else Inl EACCES))"

definition file_Stat :: "filesystem \<Rightarrow> string list \<Rightarrow> errno + FileInfo" where
  "file_Stat fs p =
     (case map_of (nodes fs) p of
        None \<Rightarrow> Inl EIO
      | Some n \<Rightarrow> Inr (info_of n))"

text \<open>Reading an open file to its end; reading a directory fails at once.\<close>

definition file_reader :: "filesystem \<Rightarrow> string list \<Rightarrow> reader" where
  "file_reader fs p =
     (case map_of (nodes fs) p of
        Some (RegFile acc content) \<Rightarrow> \<lparr>rdata = content, rfail = None\<rparr>
      | Some (Directory acc sz) \<Rightarrow> \<lparr>rdata = [], rfail = Some EISDIR\<rparr>
      | None \<Rightarrow> \<lparr>rdata = [], rfail = Some EIO\<rparr>)"

text \<open>
  \<^verbatim>\<open>os.Create\<close> is \<^verbatim>\<open>open\<close> with \<^verbatim>\<open>O_RDWR|O_CREATE|O_TRUNC\<close>: an existing
  regular file is emptied, a missing one is made in its directory, a directory is refused.
\<close>

definition os_Create :: "filesystem \<Rightarrow> string \<Rightarrow> filesystem \<times> (errno + string list)" where
  "os_Create fs name =
     (case namei fs name of
        Inl e \<Rightarrow> (fs, Inl e)
      | Inr p \<Rightarrow>
          (case map_of (nodes fs) p of
             Some (Directory acc sz) \<Rightarrow> (fs, Inl EISDIR)
           | Some (RegFile acc content) \<Rightarrow>
               if acc then (fs\<lparr>nodes := AList.update p (RegFile True []) (nodes fs)\<rparr>, Inr p)
               else (fs, Inl EACCES)
           | None \<Rightarrow>
               if components name \<noteq> [] \<and> last (components name) \<noteq> ''.''
                  \<and> last (components name) \<noteq> ''..''
               then (fs\<lparr>nodes := AList.update p (RegFile True []) (nodes fs)\<rparr>, Inr p)
               else (fs, Inl ENOENT)))"

text \<open>
  Writing to an open file appends as many bytes as the device accepts and reports
  \<^verbatim>\<open>ENOSPC\<close> when some were left over.
\<close>

definition file_Write :: "filesystem \<Rightarrow> string list \<Rightarrow> bytes \<Rightarrow> filesystem \<times> nat \<times> errno option" where
  "file_Write fs p d =
     (let n = (case quota fs of None \<Rightarrow> length d | Some q \<Rightarrow> min q (length d));
          q' = (case quota fs of None \<Rightarrow> None | Some q \<Rightarrow> Some (q - n));
          ns = (case map_of (nodes fs) p of
                  Some (RegFile acc content) \<Rightarrow>
                    AList.update p (RegFile acc (content @ take n d)) (nodes fs)
                | _ \<Rightarrow> nodes fs)
      in (fs\<lparr>nodes := ns, quota := q'\<rparr>, n, if n < length d then Some ENOSPC else None))"

text \<open>
  \<^verbatim>\<open>io.Copy\<close> into a file: everything the reader delivers is written; the first error,
  of the write or of the reader, is the result.
\<close>

definition io_Copy_to_file :: "filesystem \<Rightarrow> string list \<Rightarrow> reader \<Rightarrow> filesystem \<times> (errno + int)" where
  "io_Copy_to_file fs p src =
     (case file_Write fs p (rdata src) of
        (fs', n, Some e) \<Rightarrow> (fs', Inl e)
      | (fs', n, None) \<Rightarrow>
          (case rfail src of
             Some e \<Rightarrow> (fs', Inl e)
           | None \<Rightarrow> (fs', Inr (int n))))"

definition has_children :: "filesystem \<Rightarrow> string list \<Rightarrow> bool" where
  "has_children fs p = list_ex (\<lambda>(q, n). q \<noteq> [] \<and> butlast q = p) (nodes fs)"

text \<open>\<^verbatim>\<open>os.Remove\<close> unlinks a file or removes an empty directory.\<close>

definition os_Remove :: "filesystem \<Rightarrow> string \<Rightarrow> filesystem \<times> errno option" where
  "os_Remove fs name =
     (case namei fs name of
        Inl e \<Rightarrow> (fs, Some e)
      | Inr p \<Rightarrow>
          (case map_of (nodes fs) p of
             None \<Rightarrow> (fs, Some ENOENT)
           | Some (RegFile acc content) \<Rightarrow> (fs\<lparr>nodes := AList.delete p (nodes fs)\<rparr>, None)
           | Some (Directory acc sz) \<Rightarrow>
               if p = [] then (fs, Some EBUSY)
               else if has_children fs p then (fs, Some ENOTEMPTY)
               else (fs\<lparr>nodes := AList.delete p (nodes fs)\<rparr>, None)))"

text \<open>
  \<^verbatim>\<open>os.MkdirAll\<close> makes the directory a path names and every missing directory on
  the way to it; it fails when the path leads through or to something that is not a
  directory. A new directory reports the size 4096.
\<close>

fun mkdir_walk :: "filesystem \<Rightarrow> string list \<Rightarrow> string list \<Rightarrow> filesystem \<times> (errno + string list)" where
  "mkdir_walk fs cur [] = (fs, Inr cur)"
| "mkdir_walk fs cur (c # cs) =
     (case map_of (nodes fs) cur of
        None \<Rightarrow> (fs, Inl ENOENT)
      | Some (RegFile acc content) \<Rightarrow> (fs, Inl ENOTDIR)
      | Some (Directory acc sz) \<Rightarrow>
          if \<not> acc then (fs, Inl EACCES)
          else if c \<noteq> ''.'' \<and> c \<noteq> ''..'' \<and> map_of (nodes fs) (cur @ [c]) = None
          then mkdir_walk (fs\<lparr>nodes := AList.update (cur @ [c]) (Directory True 4096) (nodes fs)\<rparr>)
                 (cur @ [c]) cs
          else mkdir_walk fs (step_dir cur c) cs)"

definition os_MkdirAll :: "filesystem \<Rightarrow> string \<Rightarrow> filesystem \<times> errno option" where
  "os_MkdirAll fs name =
     (if name = [] then (fs, Some ENOENT)
      else
        (case mkdir_walk fs (if is_rooted name then [] else cwd fs) (components name) of
           (fs', Inl e) \<Rightarrow> (fs', Some e)
         | (fs', Inr p) \<Rightarrow>
             (case map_of (nodes fs') p of
                Some (Directory acc sz) \<Rightarrow> (fs', None)
              | Some (RegFile acc content) \<Rightarrow> (fs', Some ENOTDIR)
              | None \<Rightarrow> (fs', Some ENOENT))))"

section \<open>The artifact store\<close>

record FileSystemStorage =
  basePath :: string

datatype storage_error =
    FailedToCreateStorageDirectory errno
  | FailedToCreateFile errno
  | FailedToWriteFile errno
  | ArtifactNotFound
  | FailedToOpenFile errno
  | FailedToGetFileInfo errno

definition NewFileSystemStorage ::
  "string \<Rightarrow> filesystem \<Rightarrow> filesystem \<times> (storage_error + FileSystemStorage)" where
  "NewFileSystemStorage base fs =
     (case os_MkdirAll fs base of
        (fs', Some e) \<Rightarrow> (fs', Inl (FailedToCreateStorageDirectory e))
      | (fs', None) \<Rightarrow> (fs', Inr \<lparr>basePath = base\<rparr>))"

definition Store ::
  "FileSystemStorage \<Rightarrow> string \<Rightarrow> reader \<Rightarrow> filesystem \<Rightarrow> filesystem \<times> storage_error option" where
  "Store st hash data fs =
     (let path = filepath_Join [basePath st, hash] in
      case os_Create fs path of
        (fs1, Inl e) \<Rightarrow> (fs1, Some (FailedToCreateFile e))
      | (fs1, Inr file) \<Rightarrow>
          (case io_Copy_to_file fs1 file data of
             (fs2, Inl e) \<Rightarrow> (fst (os_Remove fs2 path), Some (FailedToWriteFile e))
           | (fs2, Inr n) \<Rightarrow> (fs2, None)))"

definition Get ::
  "FileSystemStorage \<Rightarrow> string \<Rightarrow> filesystem \<Rightarrow> storage_error + (reader \<times> int)" where
  "Get st hash fs =
     (let path = filepath_Join [basePath st, hash] in
      case os_Open fs path of
        Inl e \<Rightarrow>
          if os_IsNotExist e then Inl ArtifactNotFound else Inl (FailedToOpenFile e)
      | Inr file \<Rightarrow>
          (case file_Stat fs file of
             Inl e \<Rightarrow> Inl (FailedToGetFileInfo e)
           | Inr info \<Rightarrow> Inr (file_reader fs file, info_Size info)))"

definition Exists :: "FileSystemStorage \<Rightarrow> string \<Rightarrow> filesystem \<Rightarrow> errno + bool" where
  "Exists st hash fs =
     (let path = filepath_Join [basePath st, hash] in
      case os_Stat fs path of
        Inr info \<Rightarrow> Inr True
      | Inl e \<Rightarrow> if os_IsNotExist e then Inr False else Inl e)"

section \<open>Requests, responses and the log\<close>

record Request =
  Method :: string
  URL_Path :: string
  Header :: "(string \<times> string) list"
  Body :: reader

text \<open>\<^verbatim>\<open>Header.Get\<close>: the value of a header, the empty string when it is absent.\<close>

definition Header_Get :: "(string \<times> string) list \<Rightarrow> string \<Rightarrow> string" where
  "Header_Get h k = (case map_of h k of None \<Rightarrow> [] | Some v \<Rightarrow> v)"

datatype json =
    JString string
  | JInt int
  | JFloat real
  | JArray "json list"
  | JObject "(string \<times> json) list"

text \<open>
  What a handler writes to the body: raw bytes, or one JSON document with the newline
  that \<^verbatim>\<open>Encoder.Encode\<close> puts after it (kept as the value it serialises).
\<close>

datatype chunk = Raw bytes | Line json

text \<open>
  The \<^verbatim>\<open>http.ResponseWriter\<close> of the server: the header map, the status line once it
  is written, and the body written so far. Only the first \<^verbatim>\<open>WriteHeader\<close> counts, and
  a \<^verbatim>\<open>Write\<close> before any \<^verbatim>\<open>WriteHeader\<close> sends 200 first. A response that ends with
  no status written is sent with 200.
\<close>

record ResponseWriter =
  rw_header :: "(string \<times> string) list"
  rw_status :: "nat option"
  rw_body :: "chunk list"

definition rw_WriteHeader :: "nat \<Rightarrow> ResponseWriter \<Rightarrow> ResponseWriter" where
  "rw_WriteHeader c w = (if rw_status w = None then w\<lparr>rw_status := Some c\<rparr> else w)"

definition rw_Write :: "chunk \<Rightarrow> ResponseWriter \<Rightarrow> ResponseWriter" where
  "rw_Write ch w =
     (let w' = (if rw_status w = None then w\<lparr>rw_status := Some 200\<rparr> else w)
      in w'\<lparr>rw_body := rw_body w' @ [ch]\<rparr>)"

definition sent_status :: "ResponseWriter \<Rightarrow> nat" where
  "sent_status w = (case rw_status w of None \<Rightarrow> 200 | Some c \<Rightarrow> c)"


text \<open>
  The logging wrapper embeds the response writer: \<^verbatim>\<open>WriteHeader\<close> is overridden and
  records its argument, \<^verbatim>\<open>Header\<close> and \<^verbatim>\<open>Write\<close> are the embedded writer's own.
\<close>

record loggingResponseWriter =
  embedded :: ResponseWriter
  statusCode :: nat

definition newLoggingResponseWriter :: "ResponseWriter \<Rightarrow> loggingResponseWriter" where
  "newLoggingResponseWriter w = \<lparr>embedded = w, statusCode = 200\<rparr>"

definition WriteHeader :: "nat \<Rightarrow> loggingResponseWriter \<Rightarrow> loggingResponseWriter" where
  "WriteHeader c lrw = lrw\<lparr>statusCode := c, embedded := rw_WriteHeader c (embedded lrw)\<rparr>"

definition Write :: "chunk \<Rightarrow> loggingResponseWriter \<Rightarrow> loggingResponseWriter" where
  "Write ch lrw = lrw\<lparr>embedded := rw_Write ch (embedded lrw)\<rparr>"

definition Header_Set :: "string \<Rightarrow> string \<Rightarrow> loggingResponseWriter \<Rightarrow> loggingResponseWriter" where
  "Header_Set k v lrw =
     lrw\<lparr>embedded := (embedded lrw)\<lparr>rw_header := AList.update k v (rw_header (embedded lrw))\<rparr>\<rparr>"

definition Header_Del :: "string \<Rightarrow> loggingResponseWriter \<Rightarrow> loggingResponseWriter" where
  "Header_Del k lrw =
     lrw\<lparr>embedded := (embedded lrw)\<lparr>rw_header := AList.delete k (rw_header (embedded lrw))\<rparr>\<rparr>"

text \<open>\<^verbatim>\<open>http.Error\<close> of Go 1.23: plain-text headers, the status, the message and a newline.\<close>

definition http_Error :: "loggingResponseWriter \<Rightarrow> string \<Rightarrow> nat \<Rightarrow> loggingResponseWriter" where
  "http_Error w msg c =
     Write (Raw (msg @ [CHR 0x0A]))
       (WriteHeader c
         (Header_Set ''X-Content-Type-Options'' ''nosniff''
           (Header_Set ''Content-Type'' ''text/plain; charset=utf-8''
             (Header_Del ''Content-Length'' w))))"

text \<open>\<^verbatim>\<open>http.StatusText\<close>, for the status codes this server sends.\<close>

definition http_StatusText :: "nat \<Rightarrow> string" where
  "http_StatusText c =
     (if c = 200 then ''OK''
      else if c = 202 then ''Accepted''
      else if c = 400 then ''Bad Request''
      else if c = 401 then ''Unauthorized''
      else if c = 404 then ''Not Found''
      else if c = 405 then ''Method Not Allowed''
      else if c = 500 then ''Internal Server Error''
      else [])"

text \<open>
  \<^verbatim>\<open>io.Copy\<close> from a reader into the response: the bytes read are written (nothing is
  written when there are none), the reader's error is the result.
\<close>

definition io_Copy_to_response ::
  "loggingResponseWriter \<Rightarrow> reader \<Rightarrow> loggingResponseWriter \<times> errno option" where
  "io_Copy_to_response w src =
     ((if rdata src = [] then w else Write (Raw (rdata src)) w), rfail src)"

text \<open>The lines the logger prints, by format string; elapsed times are left out.\<close>

datatype log_line =
    LogRequest string string
  | LogResponse nat string
  | LogCacheEvent string string string real
  | LogDownloadFailed string storage_error
  | LogStreamError string errno
  | LogUploadFailed string storage_error
  | LogCheckError string errno

text \<open>What a request can change: the file system and the output of the logger.\<close>

record world =
  disk :: filesystem
  logged :: "log_line list"

definition Printf :: "log_line \<Rightarrow> world \<Rightarrow> world" where
  "Printf l wd = wd\<lparr>logged := logged wd @ [l]\<rparr>"

definition strings_HasPrefix :: "string \<Rightarrow> string \<Rightarrow> bool" where
  "strings_HasPrefix s p = (take (length p) s = p)"

definition strings_TrimPrefix :: "string \<Rightarrow> string \<Rightarrow> string" where
  "strings_TrimPrefix s p = (if strings_HasPrefix s p then drop (length p) s else s)"

text \<open>The verb \<^verbatim>\<open>%d\<close> of \<^verbatim>\<open>fmt.Sprintf\<close>.\<close>

function digits :: "nat \<Rightarrow> string" where
  "digits n = (if n < 10 then [''0123456789'' ! n] else digits (n div 10) @ [''0123456789'' ! (n mod 10)])"
  by pat_completeness auto
termination
  by (relation "measure id") auto

declare digits.simps [simp del]

definition Sprintf_d :: "int \<Rightarrow> string" where
  "Sprintf_d i = (if i < 0 then CHR ''-'' # digits (nat (- i)) else digits (nat i))"

section \<open>The request and response structures\<close>

record ArtifactEvent =
  SessionID :: string
  Source :: string
  Event :: string
  Hash :: string
  Duration :: real

record StatusResponse =
  Status :: string

record UploadResponse =
  URLs :: "string list"

record ErrorMessage =
  Message :: string

record ArtifactInfo =
  Size :: int
  TaskDurationMs :: real
  Tag :: string
  Error :: "ErrorMessage option"

record ArtifactQueryRequest =
  Hashes :: "string list"

text \<open>
  The JSON encodings, by the struct tags: every field of \<^verbatim>\<open>ArtifactInfo\<close> is
  \<^verbatim>\<open>omitempty\<close>, so a zero number, an empty string and a nil pointer are left out.
  A map is encoded with its keys in sorted order.
\<close>

definition encode_StatusResponse :: "StatusResponse \<Rightarrow> json" where
  "encode_StatusResponse r = JObject [(''status'', JString (Status r))]"

definition encode_UploadResponse :: "UploadResponse \<Rightarrow> json" where
  "encode_UploadResponse r = JObject [(''urls'', JArray (map JString (URLs r)))]"

definition encode_ArtifactInfo :: "ArtifactInfo \<Rightarrow> json" where
  "encode_ArtifactInfo a =
     JObject
       ((if Size a = 0 then [] else [(''size'', JInt (Size a))])
        @ (if TaskDurationMs a = 0 then [] else [(''taskDurationMs'', JFloat (TaskDurationMs a))])
        @ (if Tag a = [] then [] else [(''tag'', JString (Tag a))])
        @ (case Error a of
             None \<Rightarrow> []
           | Some e \<Rightarrow> [(''error'', JObject [(''message'', JString (Message e))])]))"

definition encode_response :: "(string \<times> ArtifactInfo) list \<Rightarrow> json" where
  "encode_response m = JObject (map (\<lambda>(k, a). (k, encode_ArtifactInfo a)) (sort_key fst m))"

text \<open>
  Decoding a request body is the work of \<^verbatim>\<open>encoding/json\<close>; the two decoders the
  handlers call are parameters of the model (\<open>None\<close>: the decoder returned an error).
\<close>

record decoders =
  decode_events :: "reader \<Rightarrow> ArtifactEvent list option"
  decode_query :: "reader \<Rightarrow> ArtifactQueryRequest option"

section \<open>The server\<close>

text \<open>
  The \<^verbatim>\<open>Server\<close> struct holds the storage and the token; what its logger prints goes
  to the \<^typ>\<open>world\<close>. A handler receives the logging wrapper and the request and
  returns the wrapper and the world as it leaves them.
\<close>

record Server =
  storage :: FileSystemStorage
  token :: string

type_synonym handler = "loggingResponseWriter \<Rightarrow> Request \<Rightarrow> world \<Rightarrow> loggingResponseWriter \<times> world"

definition handleAuth ::
  "Server \<Rightarrow> handler \<Rightarrow> ResponseWriter \<Rightarrow> Request \<Rightarrow> world \<Rightarrow> ResponseWriter \<times> world" where
  "handleAuth s next w r wd =
     (let lrw = newLoggingResponseWriter w;
          wd1 = Printf (LogRequest (Method r) (URL_Path r)) wd;
          auth = Header_Get (Header r) ''Authorization''
      in if \<not> strings_HasPrefix auth ''Bearer '' then
           (embedded (http_Error lrw ''Unauthorized'' 401),
            Printf (LogResponse 401 ''Unauthorized (no bearer token)'') wd1)
         else
           (let tok = strings_TrimPrefix auth ''Bearer '' in
            if tok \<noteq> token s then
              (embedded (http_Error lrw ''Unauthorized'' 401),
               Printf (LogResponse 401 ''Unauthorized (invalid token)'') wd1)
            else
              (case next lrw r wd1 of
                 (lrw', wd2) \<Rightarrow>
                   (embedded lrw',
                    Printf (LogResponse (statusCode lrw') (http_StatusText (statusCode lrw'))) wd2))))"

definition recordEvents :: "decoders \<Rightarrow> Server \<Rightarrow> handler" where
  "recordEvents js s w r wd =
     (if Method r \<noteq> ''POST'' then (http_Error w ''Method not allowed'' 405, wd)
      else
        (case decode_events js (Body r) of
           None \<Rightarrow> (http_Error w ''Invalid request body'' 400, wd)
         | Some events \<Rightarrow>
             (WriteHeader 200 w,
              foldl (\<lambda>wd' event.
                       Printf (LogCacheEvent (Hash event) (Source event) (Event event)
                                 (Duration event)) wd')
                wd events)))"

definition getStatus :: "Server \<Rightarrow> handler" where
  "getStatus s w r wd =
     (if Method r \<noteq> ''GET'' then (http_Error w ''Method not allowed'' 405, wd)
      else (Write (Line (encode_StatusResponse \<lparr>Status = ''enabled''\<rparr>)) w, wd))"

definition downloadArtifact ::
  "Server \<Rightarrow> loggingResponseWriter \<Rightarrow> Request \<Rightarrow> string \<Rightarrow> world \<Rightarrow> loggingResponseWriter \<times> world" where
  "downloadArtifact s w r hash wd =
     (case Get (storage s) hash (disk wd) of
        Inl err \<Rightarrow>
          (http_Error w ''Artifact not found'' 404, Printf (LogDownloadFailed hash err) wd)
      | Inr (reader, size') \<Rightarrow>
          (let w1 = Header_Set ''Content-Length'' (Sprintf_d size') w;
               w2 = Header_Set ''Content-Type'' ''application/octet-stream'' w1
           in case io_Copy_to_response w2 reader of
                (w3, Some err) \<Rightarrow> (w3, Printf (LogStreamError hash err) wd)
              | (w3, None) \<Rightarrow> (w3, wd)))"

definition uploadArtifact ::
  "Server \<Rightarrow> loggingResponseWriter \<Rightarrow> Request \<Rightarrow> string \<Rightarrow> world \<Rightarrow> loggingResponseWriter \<times> world" where
  "uploadArtifact s w r hash wd =
     (let contentLength = Header_Get (Header r) ''Content-Length'' in
      if contentLength = [] then (http_Error w ''Content-Length required'' 400, wd)
      else
        (case Store (storage s) hash (Body r) (disk wd) of
           (fs', Some err) \<Rightarrow>
             (http_Error w ''Failed to store artifact'' 500,
              Printf (LogUploadFailed hash err) (wd\<lparr>disk := fs'\<rparr>))
         | (fs', None) \<Rightarrow>
             (let response = \<lparr>URLs = [''https://api.vercel.com/v2/now/artifact/'' @ hash]\<rparr>
              in (Write (Line (encode_UploadResponse response)) (WriteHeader 202 w),
                  wd\<lparr>disk := fs'\<rparr>))))"

definition checkArtifact ::
  "Server \<Rightarrow> loggingResponseWriter \<Rightarrow> Request \<Rightarrow> string \<Rightarrow> world \<Rightarrow> loggingResponseWriter \<times> world" where
  "checkArtifact s w r hash wd =
     (case Exists (storage s) hash (disk wd) of
        Inl err \<Rightarrow>
          (http_Error w ''Internal server error'' 500, Printf (LogCheckError hash err) wd)
      | Inr exists \<Rightarrow>
          if \<not> exists then (http_Error w ''Artifact not found'' 404, wd)
          else (WriteHeader 200 w, wd))"

definition handleArtifact :: "Server \<Rightarrow> handler" where
  "handleArtifact s w r wd =
     (let hash = strings_TrimPrefix (URL_Path r) ''/v8/artifacts/'' in
      if Method r = ''GET'' then downloadArtifact s w r hash wd
      else if Method r = ''PUT'' then uploadArtifact s w r hash wd
      else if Method r = ''HEAD'' then checkArtifact s w r hash wd
      else (http_Error w ''Method not allowed'' 405, wd))"

text \<open>The loop of the bulk query: one lookup per requested hash, each recorded in the map.\<close>

definition query_entry :: "Server \<Rightarrow> filesystem \<Rightarrow> string \<Rightarrow> ArtifactInfo" where
  "query_entry s fs hash =
     (case Get (storage s) hash fs of
        Inl err \<Rightarrow>
          \<lparr>Size = 0, TaskDurationMs = 0, Tag = [],
           Error = Some \<lparr>Message = ''Artifact not found''\<rparr>\<rparr>
      | Inr (reader, size') \<Rightarrow> \<lparr>Size = size', TaskDurationMs = 0, Tag = [], Error = None\<rparr>)"

definition query_loop ::
  "Server \<Rightarrow> filesystem \<Rightarrow> string list \<Rightarrow> (string \<times> ArtifactInfo) list" where
  "query_loop s fs hashes =
     foldl (\<lambda>response hash. AList.update hash (query_entry s fs hash) response) [] hashes"

definition queryArtifacts :: "decoders \<Rightarrow> Server \<Rightarrow> handler" where
  "queryArtifacts js s w r wd =
     (if Method r \<noteq> ''POST'' then (http_Error w ''Method not allowed'' 405, wd)
      else
        (case decode_query js (Body r) of
           None \<Rightarrow> (http_Error w ''Invalid request body'' 400, wd)
         | Some req \<Rightarrow>
             (Write (Line (encode_response (query_loop s (disk wd) (Hashes req)))) w, wd)))"

text \<open>The routes that \<^verbatim>\<open>main\<close> registers, each handler behind \<^verbatim>\<open>handleAuth\<close>.\<close>

definition routes ::
  "decoders \<Rightarrow> Server \<Rightarrow>
     (string \<times> (ResponseWriter \<Rightarrow> Request \<Rightarrow> world \<Rightarrow> ResponseWriter \<times> world)) list" where
  "routes js s =
     [(''/v8/artifacts/events'', handleAuth s (recordEvents js s)),
      (''/v8/artifacts/status'', handleAuth s (getStatus s)),
      (''/v8/artifacts/'', handleAuth s (handleArtifact s)),
      (''/v8/artifacts'', handleAuth s (queryArtifacts js s))]"

text \<open>A response writer nothing has been written to.\<close>

definition fresh :: ResponseWriter where
  "fresh = \<lparr>rw_header = [], rw_status = None, rw_body = []\<rparr>"

section \<open>Notions used in the statements\<close>

text \<open>A directory the process may search, and the test for a directory node.\<close>

definition searchable :: "filesystem \<Rightarrow> string list \<Rightarrow> bool" where
  "searchable fs q = (case map_of (nodes fs) q of Some (Directory acc sz) \<Rightarrow> acc | _ \<Rightarrow> False)"

definition is_directory :: "node option \<Rightarrow> bool" where
  "is_directory n = (case n of Some (Directory acc sz) \<Rightarrow> True | _ \<Rightarrow> False)"

subsection \<open>Example inputs\<close>

text \<open>
  A storage directory \<^verbatim>\<open>/data\<close> that holds the artifact \<^verbatim>\<open>abc123\<close> with the
  payload \<^verbatim>\<open>hello\<close>, an empty artifact, and a file the server may not open.
\<close>

definition ex_fs :: filesystem where
  "ex_fs = \<lparr>nodes = [([], Directory True 4096), ([''data''], Directory True 4096),
                      ([''data'', ''abc123''], RegFile True ''hello''),
                      ([''data'', ''empty''], RegFile True []),
                      ([''data'', ''locked''], RegFile False ''secret'')],
            cwd = [], quota = None\<rparr>"

definition ex_server :: Server where
  "ex_server = \<lparr>storage = \<lparr>basePath = ''/data''\<rparr>, token = ''test''\<rparr>"

definition ex_world :: world where
  "ex_world = \<lparr>disk = ex_fs, logged = []\<rparr>"

definition ex_request :: "string \<Rightarrow> string \<Rightarrow> (string \<times> string) list \<Rightarrow> bytes \<Rightarrow> Request" where
  "ex_request m p h b = \<lparr>Method = m, URL_Path = p, Header = h, Body = \<lparr>rdata = b, rfail = None\<rparr>\<rparr>"

subsection \<open>Reading a response and the log\<close>

text \<open>The members of the JSON object that is the whole body of a response.\<close>

definition entries_of :: "chunk list \<Rightarrow> (string \<times> json) list" where
  "entries_of b = (case b of [Line (JObject es)] \<Rightarrow> es | _ \<Rightarrow> [])"

text \<open>The status codes of the response lines of a log, in order.\<close>

fun response_codes :: "log_line list \<Rightarrow> nat list" where
  "response_codes [] = []"
| "response_codes (LogResponse c t # ls) = c # response_codes ls"
| "response_codes (l # ls) = response_codes ls"

text \<open>
  A wrapper nothing was sent through, and a wrapper whose recorded status is the status
  that the embedded writer sends.
\<close>

definition unwritten :: "loggingResponseWriter \<Rightarrow> bool" where
  "unwritten w = (rw_status (embedded w) = None \<and> statusCode w = 200)"

definition tracked :: "loggingResponseWriter \<Rightarrow> bool" where
  "tracked w = (statusCode w = sent_status (embedded w))"

subsection \<open>Sequences of store operations\<close>

text \<open>
  The three operations of the store as values, and running a list of them. A
  \<^verbatim>\<open>Store\<close> clobbers the artifact of a hash when it resolves to the same file and ends
  with the error of a failed write; a list of operations is harmless for a hash when no
  operation in it, run in its turn, clobbers the artifact.
\<close>

datatype store_op = OpStore string reader | OpRetrieve string | OpExists string

fun apply_op :: "FileSystemStorage \<Rightarrow> store_op \<Rightarrow> filesystem \<Rightarrow> filesystem" where
  "apply_op st (OpStore h d) fs = fst (Store st h d fs)"
| "apply_op st (OpRetrieve h) fs = fs"
| "apply_op st (OpExists h) fs = fs"

fun run_ops :: "FileSystemStorage \<Rightarrow> store_op list \<Rightarrow> filesystem \<Rightarrow> filesystem" where
  "run_ops st [] fs = fs"
| "run_ops st (op # ops) fs = run_ops st ops (apply_op st op fs)"

definition write_failed :: "storage_error option \<Rightarrow> bool" where
  "write_failed res = (case res of Some (FailedToWriteFile e) \<Rightarrow> True | _ \<Rightarrow> False)"

fun clobbers :: "FileSystemStorage \<Rightarrow> string \<Rightarrow> filesystem \<Rightarrow> store_op \<Rightarrow> bool" where
  "clobbers st h fs (OpStore h' d) =
     (write_failed (snd (Store st h' d fs))
      \<and> namei fs (filepath_Join [basePath st, h']) = namei fs (filepath_Join [basePath st, h]))"
| "clobbers st h fs (OpRetrieve h') = False"
| "clobbers st h fs (OpExists h') = False"

fun harmless :: "FileSystemStorage \<Rightarrow> string \<Rightarrow> filesystem \<Rightarrow> store_op list \<Rightarrow> bool" where
  "harmless st h fs [] = True"
| "harmless st h fs (op # ops) = (\<not> clobbers st h fs op \<and> harmless st h (apply_op st op fs) ops)"

subsection \<open>More example inputs\<close>

text \<open>
  Decoders that know two request bodies, and the file system of a fresh container:
  the working directory \<^verbatim>\<open>/app/bin\<close> and nothing else.
\<close>

definition ex_decoders :: decoders where
  \<open>ex_decoders =
     \<lparr>decode_events = (\<lambda>b. if rdata b = ''[]'' then Some [] else None),
      decode_query = (\<lambda>b. map_of
        [(''{"hashes":["abc123","zzz999"]}'', \<lparr>Hashes = [''abc123'', ''zzz999'']\<rparr>),
         (''{"hashes":["empty"]}'', \<lparr>Hashes = [''empty'']\<rparr>)] (rdata b))\<rparr>\<close>

definition ex_boot_fs :: filesystem where
  "ex_boot_fs = \<lparr>nodes = [([], Directory True 4096), ([''app''], Directory True 4096),
                           ([''app'', ''bin''], Directory True 4096)],
                 cwd = [''app'', ''bin''], quota = None\<rparr>"

section \<open>Basic facts\<close>

lemmas rw_defs = WriteHeader_def Write_def Header_Set_def Header_Del_def rw_WriteHeader_def
  rw_Write_def newLoggingResponseWriter_def

lemma http_Error_status:
  "rw_status (embedded w) = None \<Longrightarrow> rw_status (embedded (http_Error w msg c)) = Some c"
  by (simp add: http_Error_def rw_defs)

lemma http_Error_statusCode: "statusCode (http_Error w msg c) = c"
  by (simp add: http_Error_def rw_defs Let_def)

lemma http_Error_body:
  "rw_body (embedded (http_Error w msg c)) = rw_body (embedded w) @ [Raw (msg @ [CHR 0x0A])]"
  by (simp add: http_Error_def rw_defs Let_def)

lemma fresh_unwritten: "rw_status (embedded (newLoggingResponseWriter fresh)) = None"
  by (simp add: newLoggingResponseWriter_def fresh_def)

lemma Header_Get_absent: "map_of h k = None \<Longrightarrow> Header_Get h k = []"
  by (simp add: Header_Get_def)

lemma HasPrefix_append: "strings_HasPrefix (p @ s) p"
  by (simp add: strings_HasPrefix_def)

lemma TrimPrefix_append: "strings_TrimPrefix (p @ s) p = s"
  by (simp add: strings_TrimPrefix_def strings_HasPrefix_def)

lemma handleAuth_authorized:
  "Header_Get (Header r) ''Authorization'' = ''Bearer '' @ token s \<Longrightarrow>
   handleAuth s next w r wd =
     (case next (newLoggingResponseWriter w) r (Printf (LogRequest (Method r) (URL_Path r)) wd) of
        (lrw', wd2) \<Rightarrow>
          (embedded lrw',
           Printf (LogResponse (statusCode lrw') (http_StatusText (statusCode lrw'))) wd2))"
  using HasPrefix_append [of "''Bearer ''" "token s"] TrimPrefix_append [of "''Bearer ''" "token s"]
  by (simp add: handleAuth_def Let_def)

lemma handleAuth_authorized_fst:
  "Header_Get (Header r) ''Authorization'' = ''Bearer '' @ token s \<Longrightarrow>
   fst (handleAuth s next w r wd) =
     embedded (fst (next (newLoggingResponseWriter w) r (Printf (LogRequest (Method r) (URL_Path r)) wd)))"
  by (simp add: handleAuth_authorized split: prod.splits)

lemma handleAuth_authorized_disk:
  "Header_Get (Header r) ''Authorization'' = ''Bearer '' @ token s \<Longrightarrow>
   disk (snd (handleAuth s next w r wd)) =
     disk (snd (next (newLoggingResponseWriter w) r (Printf (LogRequest (Method r) (URL_Path r)) wd)))"
  by (simp add: handleAuth_authorized Printf_def split: prod.splits)

lemma handleAuth_authorized_body:
  assumes "Header_Get (Header r) ''Authorization'' = ''Bearer '' @ token s"
    and "next (newLoggingResponseWriter fresh) (r\<lparr>Body := b\<rparr>)
            (Printf (LogRequest (Method r) (URL_Path r)) wd)
         = next (newLoggingResponseWriter fresh) r (Printf (LogRequest (Method r) (URL_Path r)) wd)"
  shows "handleAuth s next fresh (r\<lparr>Body := b\<rparr>) wd = handleAuth s next fresh r wd"
  using assms handleAuth_authorized [of r s "next" fresh wd]
    handleAuth_authorized [of "r\<lparr>Body := b\<rparr>" s "next" fresh wd]
  by simp

section \<open>Resolving paths\<close>

lemma walk_Cons_ok:
  "walk fs cur (c # cs) = Inr p \<longleftrightarrow> searchable fs cur \<and> walk fs (step_dir cur c) cs = Inr p"
  by (auto simp: searchable_def split: option.splits node.splits)

lemma walk_mono:
  assumes "\<And>q. searchable fs q \<Longrightarrow> searchable fs' q"
  shows "walk fs cur cs = Inr p \<Longrightarrow> walk fs' cur cs = Inr p"
proof (induction cs arbitrary: cur)
  case Nil
  then show ?case by simp
next
  case (Cons c cs)
  then show ?case
    unfolding walk_Cons_ok using assms by blast
qed

lemma walk_append:
  "walk fs cur (xs @ ys) = (case walk fs cur xs of Inl e \<Rightarrow> Inl e | Inr q \<Rightarrow> walk fs q ys)"
  by (induction xs arbitrary: cur) (auto split: option.splits node.splits)

lemma walk_snoc_ok:
  "walk fs cur (xs @ [c]) = Inr p \<longleftrightarrow>
     (\<exists>q. walk fs cur xs = Inr q \<and> searchable fs q \<and> p = step_dir q c)"
  unfolding walk_append using walk_Cons_ok [of fs _ c "[]" p]
  by (cases "walk fs cur xs") auto

lemma searchable_upd_file:
  assumes "\<not> is_directory (map_of (nodes fs) p)"
    and "map_of (nodes fs') = (map_of (nodes fs))(p := v)" and "\<not> is_directory v"
  shows "searchable fs' q = searchable fs q"
  using assms by (auto simp: searchable_def is_directory_def split: option.splits node.splits)

lemma namei_upd_file:
  assumes "\<not> is_directory (map_of (nodes fs) p)"
    and "map_of (nodes fs') = (map_of (nodes fs))(p := v)" and "\<not> is_directory v"
    and "cwd fs' = cwd fs"
  shows "namei fs name = Inr q \<longleftrightarrow> namei fs' name = Inr q"
proof -
  have s: "\<And>x. searchable fs' x = searchable fs x"
    using searchable_upd_file [OF assms(1,2,3)] .
  have a: "walk fs c cs = Inr q \<Longrightarrow> walk fs' c cs = Inr q" for c cs
    by (rule walk_mono [of fs fs']) (simp_all add: s)
  have b: "walk fs' c cs = Inr q \<Longrightarrow> walk fs c cs = Inr q" for c cs
    by (rule walk_mono [of fs' fs]) (simp_all add: s)
  have "walk fs c cs = Inr q \<longleftrightarrow> walk fs' c cs = Inr q" for c cs
    using a b by blast
  then show ?thesis
    by (simp add: namei_def assms(4))
qed

subsection \<open>Splitting and joining path strings\<close>

lemma split_on_free: "c \<notin> set x \<Longrightarrow> split_on c x = [x]"
  by (induction x) auto

lemma split_on_sep: "c \<notin> set x \<Longrightarrow> split_on c (x @ c # ys) = x # split_on c ys"
  by (induction x) auto

lemma split_on_pieces: "x \<in> set (split_on c s) \<Longrightarrow> c \<notin> set x"
proof (induction s arbitrary: x)
  case Nil
  then show ?case by simp
next
  case (Cons a s)
  show ?case
  proof (cases "a = c")
    case True
    then show ?thesis using Cons by auto
  next
    case False
    then show ?thesis using Cons by (cases "split_on c s") auto
  qed
qed

lemma split_on_nonempty: "split_on c s \<noteq> []"
  by (induction s) (auto split: list.splits)

lemma split_on_snoc_sep: "split_on c (s @ [c]) = split_on c s @ [[]]"
proof (induction s)
  case Nil
  then show ?case by simp
next
  case (Cons a s)
  then show ?case using split_on_nonempty [of c s] by (cases "split_on c s") auto
qed

lemma components_pieces: "x \<in> set (components s) \<Longrightarrow> x \<noteq> [] \<and> CHR ''/'' \<notin> set x"
  using split_on_pieces [of x "CHR ''/''" s] by (auto simp: components_def)

lemma components_trailing: "components (s @ ''/'') = components s"
  by (simp add: components_def split_on_snoc_sep)

lemma components_leading: "components (CHR ''/'' # s) = components s"
  by (simp add: components_def)

lemma split_on_Join:
  "xs \<noteq> [] \<Longrightarrow> \<forall>x \<in> set xs. c \<notin> set x \<Longrightarrow> split_on c (strings_Join xs [c]) = xs"
proof (induction xs "[c]" rule: strings_Join.induct)
  case 1
  then show ?case by simp
next
  case (2 e)
  then show ?case by (simp add: split_on_free)
next
  case (3 e v va)
  then show ?case by (simp add: split_on_sep)
qed

lemma components_Join:
  assumes "\<forall>x \<in> set xs. x \<noteq> [] \<and> CHR ''/'' \<notin> set x"
  shows "components (strings_Join xs ''/'') = xs"
proof (cases "xs = []")
  case True
  then show ?thesis by (simp add: components_def)
next
  case False
  then have "split_on CHR ''/'' (strings_Join xs ''/'') = xs"
    using assms split_on_Join [of xs "CHR ''/''"] by simp
  then show ?thesis using assms by (simp add: components_def filter_id_conv)
qed

lemma Join_not_rooted:
  assumes "xs \<noteq> []" and "\<forall>x \<in> set xs. x \<noteq> [] \<and> CHR ''/'' \<notin> set x"
  shows "strings_Join xs ''/'' \<noteq> [] \<and> \<not> is_rooted (strings_Join xs ''/'')"
proof -
  obtain e es where xs: "xs = e # es" using assms(1) by (cases xs) auto
  then obtain a e' where e: "e = a # e'" "a \<noteq> CHR ''/''" using assms(2) by (cases e) auto
  show ?thesis using xs e by (cases es) (simp_all add: is_rooted_def)
qed

lemma clean_step_pieces:
  assumes "\<forall>x \<in> set out. x \<noteq> [] \<and> CHR ''/'' \<notin> set x" and "c \<noteq> [] \<and> CHR ''/'' \<notin> set c"
  shows "\<forall>x \<in> set (clean_step rooted out c). x \<noteq> [] \<and> CHR ''/'' \<notin> set x"
  using assms by (auto simp: clean_step_def dest: in_set_butlastD)

lemma foldl_clean_pieces:
  "\<forall>x \<in> set out. x \<noteq> [] \<and> CHR ''/'' \<notin> set x \<Longrightarrow>
   \<forall>c \<in> set cs. c \<noteq> [] \<and> CHR ''/'' \<notin> set c \<Longrightarrow>
   \<forall>x \<in> set (foldl (clean_step rooted) out cs). x \<noteq> [] \<and> CHR ''/'' \<notin> set x"
proof (induction cs arbitrary: out)
  case Nil
  then show ?case by simp
next
  case (Cons c cs)
  have "\<forall>x \<in> set (clean_step rooted out c). x \<noteq> [] \<and> CHR ''/'' \<notin> set x"
    using clean_step_pieces [of out c rooted] Cons.prems by simp
  from Cons.IH [OF this] Cons.prems(2) show ?case by simp
qed

lemma clean_elems_pieces: "\<forall>x \<in> set (clean_elems s). x \<noteq> [] \<and> CHR ''/'' \<notin> set x"
  unfolding clean_elems_def using foldl_clean_pieces [of "[]" "components s"] components_pieces
  by simp

subsection \<open>Cleaning a path does not change where it leads\<close>

text \<open>
  \<^verbatim>\<open>Clean\<close> removes \<^verbatim>\<open>..\<close> together with the name before it without looking at the
  file system. Where the kernel resolves the uncleaned path (every directory on the way
  exists), the cleaned path resolves to the same location.
\<close>

lemma clean_walk:
  assumes "walk fs cur cs = Inr p" and "walk fs start out = Inr cur"
    and "''.'' \<notin> set out" and "rooted \<longrightarrow> start = [] \<and> ''..'' \<notin> set out"
  shows "walk fs start (foldl (clean_step rooted) out cs) = Inr p"
  using assms
proof (induction cs arbitrary: out cur)
  case Nil
  then show ?case by simp
next
  case (Cons c cs)
  from Cons.prems(1) have s: "searchable fs cur" and w: "walk fs (step_dir cur c) cs = Inr p"
    unfolding walk_Cons_ok by simp_all
  show ?case
  proof (cases "c = ''.''")
    case True
    then have "clean_step rooted out c = out" by (simp add: clean_step_def)
    then show ?thesis using Cons.IH [OF _ Cons.prems(2,3,4)] w True by simp
  next
    case notdot: False
    show ?thesis
    proof (cases "c = ''..''")
      case False
      have "walk fs start (out @ [c]) = Inr (step_dir cur c)"
        unfolding walk_snoc_ok using Cons.prems(2) s by blast
      moreover have "clean_step rooted out c = out @ [c]"
        using notdot False by (simp add: clean_step_def)
      ultimately show ?thesis using Cons.IH [OF w, of "out @ [c]"] Cons.prems(3,4) notdot False
        by simp
    next
      case True
      have w': "walk fs (butlast cur) cs = Inr p" using w True by simp
      show ?thesis
      proof (cases "out \<noteq> [] \<and> last out \<noteq> ''..''")
        case pop: True
        then obtain out0 n where o: "out = out0 @ [n]" and n: "n \<noteq> ''..''" "n \<noteq> ''.''"
          using Cons.prems(3) by (metis append_butlast_last_id last_in_set)
        from Cons.prems(2) obtain q where q: "walk fs start out0 = Inr q" "cur = step_dir q n"
          unfolding o walk_snoc_ok by blast
        have "walk fs start out0 = Inr (butlast cur)" using q n by simp
        from Cons.IH [OF w' this] Cons.prems(3,4) o
        have "walk fs start (foldl (clean_step rooted) out0 cs) = Inr p" by simp
        moreover have "clean_step rooted out c = out0"
          using pop o True by (simp add: clean_step_def)
        ultimately show ?thesis by simp
      next
        case nopop: False
        show ?thesis
        proof (cases rooted)
          case True
          then have "out = []" using nopop Cons.prems(4) by (cases out rule: rev_cases) auto
          then have "cur = []" using Cons.prems(2,4) True by simp
          then have "walk fs start out = Inr (butlast cur)" using Cons.prems(2) by simp
          moreover have "clean_step rooted out c = out"
            using nopop True \<open>c = ''..''\<close> by (auto simp: clean_step_def)
          ultimately show ?thesis using Cons.IH [OF w' _ Cons.prems(3,4)] by simp
        next
          case False
          have "walk fs start (out @ [''..'']) = Inr (butlast cur)"
            unfolding walk_snoc_ok using Cons.prems(2) s by auto
          moreover have "clean_step rooted out c = out @ [''..'']"
            using nopop False \<open>c = ''..''\<close> by (auto simp: clean_step_def)
          ultimately show ?thesis using Cons.IH [OF w', of "out @ [''..'']"] Cons.prems(3) False
            by simp
        qed
      qed
    qed
  qed
qed

lemma namei_Clean:
  assumes "s \<noteq> []" and "namei fs s = Inr p"
  shows "namei fs (Clean s) = Inr p"
proof -
  define start where "start = (if is_rooted s then [] else cwd fs)"
  have w: "walk fs start (components s) = Inr p"
    using assms by (simp add: namei_def start_def)
  have "walk fs start (foldl (clean_step (is_rooted s)) [] (components s)) = Inr p"
    by (rule clean_walk [OF w]) (simp_all add: start_def)
  then have ce: "walk fs start (clean_elems s) = Inr p" by (simp add: clean_elems_def)
  note pc = clean_elems_pieces [of s]
  show ?thesis
  proof (cases "is_rooted s")
    case True
    then show ?thesis using ce
      by (simp add: Clean_def namei_def is_rooted_def components_leading components_Join [OF pc] start_def)
  next
    case rel: False
    show ?thesis
    proof (cases "clean_elems s = []")
      case True
      obtain a s' where s: "s = a # s'" "a \<noteq> CHR ''/''"
        using assms(1) rel by (cases s) (auto simp: is_rooted_def)
      have "components s \<noteq> []"
        using s by (cases "split_on CHR ''/'' s'") (auto simp: components_def)
      then obtain c cs where "components s = c # cs" by (cases "components s") auto
      then have "walk fs start (c # cs) = Inr p" using w by simp
      then have "searchable fs start" unfolding walk_Cons_ok by simp
      then have dot: "walk fs start [''.''] = Inr start" unfolding walk_Cons_ok by simp
      have "namei fs ''.'' = walk fs start [''.'']"
        using rel by (simp add: namei_def is_rooted_def start_def components_def del: walk.simps)
      moreover have "p = start" using ce True by simp
      moreover have "Clean s = ''.''" using rel True by (simp add: Clean_def)
      ultimately show ?thesis using dot by simp
    next
      case False
      then show ?thesis using rel ce Join_not_rooted [OF False pc]
        by (simp add: Clean_def namei_def components_Join [OF pc] start_def)
    qed
  qed
qed

lemma Join_base_empty: "base \<noteq> [] \<Longrightarrow> filepath_Join [base, []] = Clean (base @ ''/'')"
  by simp

lemma namei_trailing:
  assumes "base \<noteq> []"
  shows "namei fs (base @ ''/'') = namei fs base"
proof -
  have "is_rooted (base @ ''/'') = is_rooted base"
    using assms by (cases base) (simp_all add: is_rooted_def)
  then show ?thesis using assms by (simp add: namei_def components_trailing)
qed

section \<open>What the store operations do to the file system\<close>

lemma os_Create_ok:
  assumes "os_Create fs name = (fs1, Inr p)"
  shows "namei fs name = Inr p" and "\<not> is_directory (map_of (nodes fs) p)"
    and "fs1 = fs\<lparr>nodes := AList.update p (RegFile True []) (nodes fs)\<rparr>"
  using assms
  by (auto simp: os_Create_def is_directory_def split: sum.splits option.splits node.splits if_splits)

lemma os_Create_err: "os_Create fs name = (fs1, Inl e) \<Longrightarrow> fs1 = fs"
  by (auto simp: os_Create_def split: sum.splits option.splits node.splits if_splits)

lemma file_Write_file:
  assumes "map_of (nodes fs) p = Some (RegFile acc content)"
    and "file_Write fs p d = (fs', n, err)"
  shows "map_of (nodes fs') = (map_of (nodes fs))(p \<mapsto> RegFile acc (content @ take n d))"
    and "cwd fs' = cwd fs" and "err = None \<Longrightarrow> n = length d" and "n \<le> length d"
  using assms
  by (auto simp: file_Write_def Let_def update_conv' split: option.splits if_splits)

lemma io_Copy_to_file_file:
  assumes "map_of (nodes fs) p = Some (RegFile acc content)"
    and "io_Copy_to_file fs p src = (fs', res)"
  shows "\<exists>n. map_of (nodes fs') = (map_of (nodes fs))(p \<mapsto> RegFile acc (content @ take n (rdata src)))
             \<and> cwd fs' = cwd fs
             \<and> (\<forall>m. res = Inr m \<longrightarrow> n = length (rdata src) \<and> m = int n \<and> rfail src = None)"
proof -
  obtain fs1 n err where w: "file_Write fs p (rdata src) = (fs1, n, err)"
    by (metis prod_cases3)
  note fw = file_Write_file [OF assms(1) w]
  have "fs' = fs1" using assms(2) w
    by (auto simp: io_Copy_to_file_def split: option.splits)
  moreover have "\<forall>m. res = Inr m \<longrightarrow> err = None \<and> m = int n \<and> rfail src = None"
    using assms(2) w by (auto simp: io_Copy_to_file_def split: option.splits)
  ultimately show ?thesis using fw by blast
qed

lemma os_Remove_file:
  assumes "namei fs name = Inr p" and "map_of (nodes fs) p = Some (RegFile acc content)"
  shows "map_of (nodes (fst (os_Remove fs name))) = (map_of (nodes fs))(p := None)"
    and "cwd (fst (os_Remove fs name)) = cwd fs"
  using assms by (auto simp: os_Remove_def delete_conv')

text \<open>What a call of \<^verbatim>\<open>Store\<close> leaves behind, by its result.\<close>

lemma Store_cases:
  assumes "Store st hash data fs = (fs', res)"
  shows "(\<exists>e. res = Some (FailedToCreateFile e) \<and> fs' = fs)
       \<or> (\<exists>p. namei fs (filepath_Join [basePath st, hash]) = Inr p
              \<and> \<not> is_directory (map_of (nodes fs) p)
              \<and> cwd fs' = cwd fs
              \<and> ((res = None \<and> rfail data = None
                    \<and> map_of (nodes fs') = (map_of (nodes fs))(p \<mapsto> RegFile True (rdata data)))
                  \<or> ((\<exists>e. res = Some (FailedToWriteFile e))
                    \<and> map_of (nodes fs') = (map_of (nodes fs))(p := None))))"
proof -
  let ?path = "filepath_Join [basePath st, hash]"
  obtain fs1 r1 where c: "os_Create fs ?path = (fs1, r1)" by (cases "os_Create fs ?path")
  show ?thesis
  proof (cases r1)
    case (Inl e)
    then show ?thesis using assms c os_Create_err [of fs ?path fs1 e]
      by (auto simp: Store_def Let_def)
  next
    case (Inr p)
    note ok = os_Create_ok [OF c [unfolded Inr]]
    have m1: "map_of (nodes fs1) = (map_of (nodes fs))(p \<mapsto> RegFile True [])"
      and cw1: "cwd fs1 = cwd fs"
      using ok(3) by (simp_all add: update_conv')
    have f1: "map_of (nodes fs1) p = Some (RegFile True [])" using m1 by simp
    obtain fs2 r2 where cp: "io_Copy_to_file fs1 p data = (fs2, r2)"
      by (cases "io_Copy_to_file fs1 p data")
    from io_Copy_to_file_file [OF f1 cp] obtain n where
      m2: "map_of (nodes fs2) = (map_of (nodes fs1))(p \<mapsto> RegFile True ([] @ take n (rdata data)))"
      and cw2: "cwd fs2 = cwd fs1"
      and r2: "\<forall>m. r2 = Inr m \<longrightarrow> n = length (rdata data) \<and> m = int n \<and> rfail data = None"
      by blast
    have m2': "map_of (nodes fs2) = (map_of (nodes fs))(p := Some (RegFile True (take n (rdata data))))"
      using m2 m1 by simp
    show ?thesis
    proof (cases r2)
      case (Inr m)
      then have "fs' = fs2" "res = None" using assms c cp \<open>r1 = Inr p\<close>
        by (auto simp: Store_def Let_def)
      then show ?thesis using ok(1,2) m2' r2 Inr cw1 cw2 by auto
    next
      case (Inl e)
      then have fs': "fs' = fst (os_Remove fs2 ?path)" and res: "res = Some (FailedToWriteFile e)"
        using assms c cp \<open>r1 = Inr p\<close> by (auto simp: Store_def Let_def)
      have "\<not> is_directory (Some (RegFile True (take n (rdata data))))"
        by (simp add: is_directory_def)
      from namei_upd_file [OF ok(2) m2' this] cw1 cw2 ok(1)
      have n2: "namei fs2 ?path = Inr p" by simp
      have "map_of (nodes fs2) p = Some (RegFile True (take n (rdata data)))"
        using m2' by simp
      from os_Remove_file [OF n2 this] m2'
      have "map_of (nodes fs') = (map_of (nodes fs))(p := None)" "cwd fs' = cwd fs"
        using fs' cw1 cw2 by simp_all
      then show ?thesis using ok(1,2) res by auto
    qed
  qed
qed



lemma Get_after_Store:
  assumes "Store st hash data fs = (fs', None)"
  shows "Get st hash fs' = Inr (\<lparr>rdata = rdata data, rfail = None\<rparr>, int (length (rdata data)))"
proof -
  let ?path = "filepath_Join [basePath st, hash]"
  from Store_cases [OF assms] obtain p where
    n: "namei fs ?path = Inr p" and nd: "\<not> is_directory (map_of (nodes fs) p)"
    and cw: "cwd fs' = cwd fs"
    and m: "map_of (nodes fs') = (map_of (nodes fs))(p := Some (RegFile True (rdata data)))"
    by auto
  have "\<not> is_directory (Some (RegFile True (rdata data)))" by (simp add: is_directory_def)
  from namei_upd_file [OF nd m this cw] n have n': "namei fs' ?path = Inr p" by simp
  have there: "map_of (nodes fs') p = Some (RegFile True (rdata data))" using m by simp
  show ?thesis
    using n' there
    by (simp add: Get_def os_Open_def file_Stat_def file_reader_def info_of_def)
qed

lemma Exists_true_iff:
  "Exists st h fs = Inr True \<longleftrightarrow>
     (\<exists>p n. namei fs (filepath_Join [basePath st, h]) = Inr p \<and> map_of (nodes fs) p = Some n)"
  by (auto simp: Exists_def os_Stat_def os_IsNotExist_def Let_def split: sum.splits option.splits)

lemma Exists_after_Store:
  assumes "Store st h d fs = (fs', None)"
  shows "Exists st h fs' = Inr True"
  using Get_after_Store [OF assms]
  by (auto simp: Exists_true_iff Get_def os_Open_def Let_def
        split: sum.splits option.splits node.splits if_splits)

lemma Exists_directory:
  "namei fs (filepath_Join [basePath st, h]) = Inr p \<Longrightarrow> is_directory (map_of (nodes fs) p) \<Longrightarrow>
   Exists st h fs = Inr True"
  unfolding Exists_true_iff by (auto simp: is_directory_def split: option.splits)

lemma directory_kept_by_Store:
  assumes n: "namei fs name = Inr p" and d: "is_directory (map_of (nodes fs) p)"
  shows "namei (fst (Store st h' d' fs)) name = Inr p
       \<and> is_directory (map_of (nodes (fst (Store st h' d' fs))) p)"
proof -
  obtain fs' res where s: "Store st h' d' fs = (fs', res)" by (cases "Store st h' d' fs")
  from Store_cases [OF s] consider
      (create) "fs' = fs"
    | (changed) p' v where "\<not> is_directory (map_of (nodes fs) p')" "cwd fs' = cwd fs"
        "map_of (nodes fs') = (map_of (nodes fs))(p' := v)" "\<not> is_directory v"
    by (auto simp: is_directory_def)
  then have "namei fs' name = Inr p \<and> is_directory (map_of (nodes fs') p)"
  proof cases
    case create
    then show ?thesis using n d by simp
  next
    case changed
    have "p' \<noteq> p" using changed(1) d by auto
    then have "map_of (nodes fs') p = map_of (nodes fs) p" using changed(3) by simp
    moreover have "namei fs' name = Inr p"
      using namei_upd_file [OF changed(1,3,4,2)] n by simp
    ultimately show ?thesis using d by simp
  qed
  then show ?thesis using s by simp
qed

lemma directory_kept_by_ops:
  "namei fs name = Inr p \<Longrightarrow> is_directory (map_of (nodes fs) p) \<Longrightarrow>
   namei (run_ops st ops fs) name = Inr p \<and> is_directory (map_of (nodes (run_ops st ops fs)) p)"
proof (induction ops arbitrary: fs)
  case Nil
  then show ?case by simp
next
  case (Cons op ops)
  have "namei (apply_op st op fs) name = Inr p
      \<and> is_directory (map_of (nodes (apply_op st op fs)) p)"
    using Cons.prems directory_kept_by_Store [of fs name p st] by (cases op) simp_all
  then show ?case using Cons.IH by simp
qed

subsection \<open>Making the storage directory\<close>

lemma mkdir_walk_keeps:
  "mkdir_walk fs cur cs = (fs', r) \<Longrightarrow>
     cwd fs' = cwd fs \<and> (\<forall>q. searchable fs q \<longrightarrow> searchable fs' q)"
proof (induction fs cur cs arbitrary: fs' r rule: mkdir_walk.induct)
  case (1 fs cur)
  then show ?case by simp
next
  case (2 fs cur c cs)
  show ?case
  proof (cases "map_of (nodes fs) cur")
    case None
    then show ?thesis using "2.prems" by simp
  next
    case (Some n)
    show ?thesis
    proof (cases n)
      case (RegFile acc content)
      then show ?thesis using "2.prems" Some by simp
    next
      case (Directory acc sz)
      show ?thesis
      proof (cases "acc")
        case False
        then show ?thesis using "2.prems" Some Directory by simp
      next
        case True
        show ?thesis
        proof (cases "c \<noteq> ''.'' \<and> c \<noteq> ''..'' \<and> map_of (nodes fs) (cur @ [c]) = None")
          case mk: True
          let ?fs1 = "fs\<lparr>nodes := AList.update (cur @ [c]) (Directory True 4096) (nodes fs)\<rparr>"
          have "mkdir_walk ?fs1 (cur @ [c]) cs = (fs', r)"
            using "2.prems" Some Directory True mk by simp
          from "2.IH"(1) [OF Some Directory _ mk this] True
          have "cwd fs' = cwd ?fs1 \<and> (\<forall>q. searchable ?fs1 q \<longrightarrow> searchable fs' q)" by simp
          moreover have "searchable fs q \<longrightarrow> searchable ?fs1 q" for q
            using mk by (auto simp: searchable_def update_conv' split: option.splits)
          ultimately show ?thesis by simp
        next
          case nomk: False
          have "mkdir_walk fs (step_dir cur c) cs = (fs', r)"
            using "2.prems" Some Directory True nomk by auto
          from "2.IH"(2) [OF Some Directory _ nomk this] True
          show ?thesis by simp
        qed
      qed
    qed
  qed
qed

lemma mkdir_walk_walk:
  "mkdir_walk fs cur cs = (fs', Inr p) \<Longrightarrow> walk fs' cur cs = Inr p"
proof (induction fs cur cs arbitrary: fs' p rule: mkdir_walk.induct)
  case (1 fs cur)
  then show ?case by simp
next
  case (2 fs cur c cs)
  from "2.prems" obtain sz where d: "map_of (nodes fs) cur = Some (Directory True sz)"
    by (auto split: option.splits node.splits if_splits)
  have s: "searchable fs cur" using d by (simp add: searchable_def)
  have s': "searchable fs' cur" using mkdir_walk_keeps [OF "2.prems"] s by simp
  show ?case
  proof (cases "c \<noteq> ''.'' \<and> c \<noteq> ''..'' \<and> map_of (nodes fs) (cur @ [c]) = None")
    case mk: True
    let ?fs1 = "fs\<lparr>nodes := AList.update (cur @ [c]) (Directory True 4096) (nodes fs)\<rparr>"
    have "mkdir_walk ?fs1 (cur @ [c]) cs = (fs', Inr p)"
      using "2.prems" d mk by simp
    from "2.IH"(1) [OF d refl _ mk this]
    have "walk fs' (cur @ [c]) cs = Inr p" by simp
    then show ?thesis unfolding walk_Cons_ok using s' mk by simp
  next
    case nomk: False
    have "mkdir_walk fs (step_dir cur c) cs = (fs', Inr p)"
      using "2.prems" d nomk by auto
    from "2.IH"(2) [OF d refl _ nomk this]
    have "walk fs' (step_dir cur c) cs = Inr p" by simp
    then show ?thesis unfolding walk_Cons_ok using s' by simp
  qed
qed

lemma os_MkdirAll_ok:
  assumes "os_MkdirAll fs base = (fs', None)"
  shows "base \<noteq> []" and "\<exists>p acc sz. namei fs' base = Inr p \<and> map_of (nodes fs') p = Some (Directory acc sz)"
proof -
  show ne: "base \<noteq> []" using assms by (auto simp: os_MkdirAll_def)
  define start where "start = (if is_rooted base then [] else cwd fs)"
  obtain fs1 r where mw: "mkdir_walk fs start (components base) = (fs1, r)"
    by (cases "mkdir_walk fs start (components base)")
  then obtain p acc sz where r: "r = Inr p" and d: "map_of (nodes fs1) p = Some (Directory acc sz)"
    and f: "fs1 = fs'"
    using assms ne
    by (auto simp: os_MkdirAll_def start_def split: sum.splits option.splits node.splits)
  have "walk fs' start (components base) = Inr p"
    using mkdir_walk_walk [of fs start "components base" fs' p] mw r f by simp
  moreover have "cwd fs' = cwd fs" using mkdir_walk_keeps [OF mw] f by simp
  ultimately have "namei fs' base = Inr p" using ne by (auto simp: namei_def start_def)
  then show "\<exists>p acc sz. namei fs' base = Inr p \<and> map_of (nodes fs') p = Some (Directory acc sz)"
    using d f by blast
qed

lemma storage_directory_after_new:
  assumes "NewFileSystemStorage base fs = (fs', Inr st)"
  shows "\<exists>p. namei fs' (filepath_Join [basePath st, []]) = Inr p
           \<and> is_directory (map_of (nodes fs') p)"
proof -
  have mk: "os_MkdirAll fs base = (fs', None)" and st: "basePath st = base"
    using assms by (auto simp: NewFileSystemStorage_def split: prod.splits option.splits)
  from os_MkdirAll_ok [OF mk] obtain p acc sz where
    ne: "base \<noteq> []" and n: "namei fs' base = Inr p"
    and d: "map_of (nodes fs') p = Some (Directory acc sz)"
    by blast
  have "namei fs' (base @ ''/'') = Inr p" using namei_trailing [OF ne] n by simp
  then have "namei fs' (Clean (base @ ''/'')) = Inr p"
    using namei_Clean [of "base @ ''/''" fs' p] by simp
  then show ?thesis using d st ne by (auto simp: is_directory_def)
qed

section \<open>Upload, then download\<close>






section \<open>The authorization gate\<close>

text \<open>
  Claim C2. On every route and for every method, that is for every wrapped handler
  \<open>next\<close> and every request: when the \<^verbatim>\<open>Authorization\<close> header is absent, does not
  start with \<^verbatim>\<open>Bearer \<close>, or carries a token that differs from the configured one, the
  response is 401, the store is untouched and the outcome does not depend on \<open>next\<close>
  (the handler is not run); when the header is \<^verbatim>\<open>Bearer \<close> followed by the configured
  token, the outcome is that of \<open>next\<close> on the same request and the wrapped writer,
  followed by the response log line.
\<close>

theorem auth_gate:
  "((map_of (Header r) ''Authorization'' = None
       \<or> \<not> strings_HasPrefix (Header_Get (Header r) ''Authorization'') ''Bearer ''
       \<or> strings_TrimPrefix (Header_Get (Header r) ''Authorization'') ''Bearer '' \<noteq> token s)
    \<longrightarrow> sent_status (fst (handleAuth s next fresh r wd)) = 401
        \<and> disk (snd (handleAuth s next fresh r wd)) = disk wd
        \<and> (\<forall>next'. handleAuth s next' fresh r wd = handleAuth s next fresh r wd))
   \<and> (Header_Get (Header r) ''Authorization'' = ''Bearer '' @ token s
    \<longrightarrow> handleAuth s next fresh r wd =
          (case next (newLoggingResponseWriter fresh) r
                  (Printf (LogRequest (Method r) (URL_Path r)) wd) of
             (lrw', wd2) \<Rightarrow>
               (embedded lrw',
                Printf (LogResponse (statusCode lrw') (http_StatusText (statusCode lrw'))) wd2)))"
proof (intro conjI impI)
  assume a: "map_of (Header r) ''Authorization'' = None
       \<or> \<not> strings_HasPrefix (Header_Get (Header r) ''Authorization'') ''Bearer ''
       \<or> strings_TrimPrefix (Header_Get (Header r) ''Authorization'') ''Bearer '' \<noteq> token s"
  have rej: "\<not> strings_HasPrefix (Header_Get (Header r) ''Authorization'') ''Bearer ''
       \<or> strings_TrimPrefix (Header_Get (Header r) ''Authorization'') ''Bearer '' \<noteq> token s"
    using a by (auto simp: Header_Get_absent strings_HasPrefix_def)
  show "sent_status (fst (handleAuth s next fresh r wd)) = 401"
    using rej http_Error_status [OF fresh_unwritten]
    by (auto simp: handleAuth_def Let_def sent_status_def)
  show "disk (snd (handleAuth s next fresh r wd)) = disk wd"
    using rej by (auto simp: handleAuth_def Let_def Printf_def)
  show "\<forall>next'. handleAuth s next' fresh r wd = handleAuth s next fresh r wd"
    using rej by (auto simp: handleAuth_def Let_def)
next
  assume "Header_Get (Header r) ''Authorization'' = ''Bearer '' @ token s"
  then show "handleAuth s next fresh r wd =
          (case next (newLoggingResponseWriter fresh) r
                  (Printf (LogRequest (Method r) (URL_Path r)) wd) of
             (lrw', wd2) \<Rightarrow>
               (embedded lrw',
                Printf (LogResponse (statusCode lrw') (http_StatusText (statusCode lrw'))) wd2))"
    by (rule handleAuth_authorized)
qed

theorem auth_gate_witness:
  "sent_status (fst (handleAuth ex_server (getStatus ex_server) fresh
       (ex_request ''GET'' ''/v8/artifacts/status'' [] []) ex_world)) = 401
   \<and> sent_status (fst (handleAuth ex_server (getStatus ex_server) fresh
       (ex_request ''GET'' ''/v8/artifacts/status'' [(''Authorization'', ''Bearer wrong'')] [])
       ex_world)) = 401
   \<and> handleAuth ex_server (getStatus ex_server) fresh
       (ex_request ''GET'' ''/v8/artifacts/status'' [(''Authorization'', ''Bearer test'')] []) ex_world
     = (\<lparr>rw_header = [], rw_status = Some 200,
          rw_body = [Line (JObject [(''status'', JString ''enabled'')])]\<rparr>,
        \<lparr>disk = ex_fs,
          logged = [LogRequest ''GET'' ''/v8/artifacts/status'', LogResponse 200 ''OK'']\<rparr>)"
  using auth_gate [of "ex_request ''GET'' ''/v8/artifacts/status'' [] []" ex_server
          "getStatus ex_server" ex_world]
        auth_gate [of
          "ex_request ''GET'' ''/v8/artifacts/status'' [(''Authorization'', ''Bearer wrong'')] []"
          ex_server "getStatus ex_server" ex_world]
        auth_gate [of
          "ex_request ''GET'' ''/v8/artifacts/status'' [(''Authorization'', ''Bearer test'')] []"
          ex_server "getStatus ex_server" ex_world]
  by (simp add: fresh_def ex_request_def ex_server_def ex_world_def Header_Get_def
        strings_HasPrefix_def strings_TrimPrefix_def getStatus_def rw_defs Printf_def
        encode_StatusResponse_def http_StatusText_def)

section \<open>Cleanup after a failed write\<close>



section \<open>Persistence of a stored artifact\<close>

lemma Exists_kept_by_Store:
  assumes e: "Exists st h fs = Inr True"
    and c: "\<not> clobbers st h fs (OpStore h' d)"
  shows "Exists st h (fst (Store st h' d fs)) = Inr True"
proof -
  let ?path = "filepath_Join [basePath st, h]"
  let ?path' = "filepath_Join [basePath st, h']"
  from e obtain p n where n: "namei fs ?path = Inr p" and m: "map_of (nodes fs) p = Some n"
    unfolding Exists_true_iff by blast
  obtain fs' res where s: "Store st h' d fs = (fs', res)" by (cases "Store st h' d fs")
  from Store_cases [OF s] consider
      (create) "fs' = fs"
    | (stored) p' where "namei fs ?path' = Inr p'" "\<not> is_directory (map_of (nodes fs) p')"
        "cwd fs' = cwd fs" "res = None"
        "map_of (nodes fs') = (map_of (nodes fs))(p' := Some (RegFile True (rdata d)))"
    | (removed) p' e' where "namei fs ?path' = Inr p'" "\<not> is_directory (map_of (nodes fs) p')"
        "cwd fs' = cwd fs" "res = Some (FailedToWriteFile e')"
        "map_of (nodes fs') = (map_of (nodes fs))(p' := None)"
    by auto
  then have "Exists st h fs' = Inr True"
  proof cases
    case create
    then show ?thesis using e by simp
  next
    case stored
    have "\<not> is_directory (Some (RegFile True (rdata d)))" by (simp add: is_directory_def)
    from namei_upd_file [OF stored(2,5) this stored(3)] n
    have "namei fs' ?path = Inr p" by simp
    moreover have "\<exists>n'. map_of (nodes fs') p = Some n'" using stored(5) m by simp
    ultimately show ?thesis unfolding Exists_true_iff by blast
  next
    case removed
    have "\<not> is_directory None" by (simp add: is_directory_def)
    from namei_upd_file [OF removed(2,5) this removed(3)] n
    have "namei fs' ?path = Inr p" by simp
    moreover have "p' \<noteq> p"
      using c s removed(1,4) n by (auto simp: write_failed_def)
    then have "map_of (nodes fs') p = Some n" using removed(5) m by simp
    ultimately show ?thesis unfolding Exists_true_iff by blast
  qed
  then show ?thesis using s by simp
qed

lemma Exists_kept_by_op:
  "Exists st h fs = Inr True \<Longrightarrow> \<not> clobbers st h fs op \<Longrightarrow>
   Exists st h (apply_op st op fs) = Inr True"
  by (cases op) (simp_all add: Exists_kept_by_Store)

lemma Exists_kept_by_ops:
  "Exists st h fs = Inr True \<Longrightarrow> harmless st h fs ops \<Longrightarrow>
   Exists st h (run_ops st ops fs) = Inr True"
proof (induction ops arbitrary: fs)
  case Nil
  then show ?case by simp
next
  case (Cons op ops)
  then show ?case using Exists_kept_by_op [of st h fs op] by simp
qed

text \<open>
  Claim C4, amended. After a successful \<^verbatim>\<open>Store\<close> under a hash, and after any later
  list of \<^verbatim>\<open>Store\<close>, \<^verbatim>\<open>Get\<close> and \<^verbatim>\<open>Exists\<close> calls in which no \<^verbatim>\<open>Store\<close> to the same
  file fails in its write, \<^verbatim>\<open>Exists\<close> of the hash is still true. Stores to other files
  may fail, and stores to the same file may succeed (they overwrite).
\<close>

theorem stored_artifact_persists:
  "snd (Store st h d fs) = None \<and> harmless st h (fst (Store st h d fs)) ops \<longrightarrow>
     Exists st h (run_ops st ops (fst (Store st h d fs))) = Inr True"
proof
  assume a: "snd (Store st h d fs) = None \<and> harmless st h (fst (Store st h d fs)) ops"
  then have "Store st h d fs = (fst (Store st h d fs), None)" by (simp add: prod_eq_iff)
  from Exists_after_Store [OF this] a
  show "Exists st h (run_ops st ops (fst (Store st h d fs))) = Inr True"
    by (simp add: Exists_kept_by_ops)
qed

theorem stored_artifact_persists_witness:
  "Exists (storage ex_server) ''new1''
        (run_ops (storage ex_server)
           [OpRetrieve ''new1'', OpStore ''other'' \<lparr>rdata = ''pay'', rfail = Some ECONNRESET\<rparr>,
            OpStore ''new1'' \<lparr>rdata = ''second'', rfail = None\<rparr>, OpExists ''zzz999'',
            OpStore ''new1/x'' \<lparr>rdata = ''third'', rfail = None\<rparr>]
           (fst (Store (storage ex_server) ''new1'' \<lparr>rdata = ''payload'', rfail = None\<rparr> ex_fs)))
       = Inr True"
proof -
  have "snd (Store (storage ex_server) ''new1'' \<lparr>rdata = ''payload'', rfail = None\<rparr> ex_fs) = None
    \<and> harmless (storage ex_server) ''new1''
        (fst (Store (storage ex_server) ''new1'' \<lparr>rdata = ''payload'', rfail = None\<rparr> ex_fs))
        [OpRetrieve ''new1'', OpStore ''other'' \<lparr>rdata = ''pay'', rfail = Some ECONNRESET\<rparr>,
            OpStore ''new1'' \<lparr>rdata = ''second'', rfail = None\<rparr>, OpExists ''zzz999'',
            OpStore ''new1/x'' \<lparr>rdata = ''third'', rfail = None\<rparr>]"
    by code_simp
  then show ?thesis
    using stored_artifact_persists [of "storage ex_server" "''new1''"
        "\<lparr>rdata = ''payload'', rfail = None\<rparr>" ex_fs
        "[OpRetrieve ''new1'', OpStore ''other'' \<lparr>rdata = ''pay'', rfail = Some ECONNRESET\<rparr>,
            OpStore ''new1'' \<lparr>rdata = ''second'', rfail = None\<rparr>, OpExists ''zzz999'',
            OpStore ''new1/x'' \<lparr>rdata = ''third'', rfail = None\<rparr>]"]
    by blast
qed

text \<open>
  As the claim is written, with a later \<^verbatim>\<open>Store\<close> of the same hash that fails partway
  among the operations, it fails: the cleanup of the failed write removes the file, and
  the artifact that was stored before is gone.
\<close>

theorem stored_artifact_persists_counterexample:
  "snd (Store (storage ex_server) ''new1'' \<lparr>rdata = ''payload'', rfail = None\<rparr> ex_fs) = None
   \<and> Exists (storage ex_server) ''new1''
        (fst (Store (storage ex_server) ''new1'' \<lparr>rdata = ''payload'', rfail = None\<rparr> ex_fs))
       = Inr True
   \<and> Exists (storage ex_server) ''new1''
        (run_ops (storage ex_server)
           [OpExists ''new1'', OpStore ''new1'' \<lparr>rdata = ''pay'', rfail = Some ECONNRESET\<rparr>]
           (fst (Store (storage ex_server) ''new1'' \<lparr>rdata = ''payload'', rfail = None\<rparr> ex_fs)))
       = Inr False"
  by code_simp

section \<open>Failures of a download\<close>

text \<open>
  Claim C5. The claim asks for 500 when \<^verbatim>\<open>Get\<close> fails for a reason other than a
  missing artifact. \<^verbatim>\<open>Get\<close> tells the two failures apart, but \<^verbatim>\<open>downloadArtifact\<close>
  answers 404 to both: a file the server may not open, and a path that leads through a
  regular file, both make \<^verbatim>\<open>Get\<close> fail with \<^verbatim>\<open>failed to open file\<close> and both are
  answered with 404.
\<close>

theorem download_other_failure:
  "Get (storage ex_server) ''locked'' (disk ex_world) = Inl (FailedToOpenFile EACCES)
   \<and> sent_status (fst (handleAuth ex_server (handleArtifact ex_server) fresh
        (ex_request ''GET'' ''/v8/artifacts/locked'' [(''Authorization'', ''Bearer test'')] [])
        ex_world)) = 404
   \<and> Get (storage ex_server) ''abc123/x'' (disk ex_world) = Inl (FailedToOpenFile ENOTDIR)
   \<and> sent_status (fst (handleAuth ex_server (handleArtifact ex_server) fresh
        (ex_request ''GET'' ''/v8/artifacts/abc123/x'' [(''Authorization'', ''Bearer test'')] [])
        ex_world)) = 404"
  by code_simp

section \<open>The bulk query\<close>

lemma map_of_foldl_update:
  "map_of (foldl (\<lambda>m h. AList.update h (f h) m) m0 hs) k
     = (if k \<in> set hs then Some (f k) else map_of m0 k)"
  by (induction hs arbitrary: m0) (auto simp: update_conv')

lemma keys_foldl_update:
  "fst ` set (foldl (\<lambda>m h. AList.update h (f h) m) m0 hs) = fst ` set m0 \<union> set hs"
  by (induction hs arbitrary: m0) (auto simp: dom_update)

lemma distinct_foldl_update:
  "distinct (map fst m0) \<Longrightarrow> distinct (map fst (foldl (\<lambda>m h. AList.update h (f h) m) m0 hs))"
  by (induction hs arbitrary: m0) (auto simp: distinct_update)

lemma query_loop_lookup:
  "map_of (query_loop s fs hs) k = (if k \<in> set hs then Some (query_entry s fs k) else None)"
  by (simp add: query_loop_def map_of_foldl_update)

lemma query_loop_keys: "set (map fst (query_loop s fs hs)) = set hs"
  using keys_foldl_update [of "query_entry s fs" "[]" hs] by (simp add: query_loop_def)

lemma query_loop_distinct: "distinct (map fst (query_loop s fs hs))"
  using distinct_foldl_update [of "[]" "query_entry s fs" hs] by (simp add: query_loop_def)

lemma map_of_sort_key_fst:
  assumes "distinct (map fst m)"
  shows "map_of (sort_key fst m) = map_of m"
proof -
  have "distinct (map fst (sort_key fst m))"
    using assms by (simp add: distinct_map)
  then show ?thesis
    using assms by (simp add: map_of_inject_set)
qed

lemma encoded_entry:
  "encode_ArtifactInfo (query_entry s fs h) =
     (case Get (storage s) h fs of
        Inl err \<Rightarrow> JObject [(''error'', JObject [(''message'', JString ''Artifact not found'')])]
      | Inr (rd, n) \<Rightarrow> if n = 0 then JObject [] else JObject [(''size'', JInt n)])"
  by (simp add: encode_ArtifactInfo_def query_entry_def split: sum.splits prod.splits)

lemma encode_response_entries:
  assumes "distinct (map fst m)"
  shows "\<exists>es. encode_response m = JObject es \<and> sorted (map fst es) \<and> distinct (map fst es)
            \<and> set (map fst es) = set (map fst m)
            \<and> map_of es = map_option encode_ArtifactInfo \<circ> map_of m"
proof -
  let ?es = "map (\<lambda>(k, a). (k, encode_ArtifactInfo a)) (sort_key fst m)"
  have k: "map fst ?es = map fst (sort_key fst m)"
    by (simp add: case_prod_unfold comp_def)
  have "sorted (map fst ?es)" unfolding k by (rule sorted_sort_key)
  moreover have "distinct (map fst ?es)" unfolding k using assms by (simp add: distinct_map)
  moreover have "set (map fst ?es) = set (map fst m)" unfolding k by simp
  moreover have "map_of ?es = map_option encode_ArtifactInfo \<circ> map_of m"
    using map_of_sort_key_fst [OF assms] by (simp add: map_of_map)
  ultimately show ?thesis unfolding encode_response_def by blast
qed

text \<open>
  Claim C6, amended. An authorized \<^verbatim>\<open>POST\<close> on \<^verbatim>\<open>/v8/artifacts\<close> whose body
  decodes to a list of hashes answers 200 with one JSON object and leaves the file system
  as it was. The object has exactly one member per requested hash (keys sorted, none
  twice), and the member of a hash depends on the lookup of that hash alone: the error
  object with the message \<^verbatim>\<open>Artifact not found\<close> when \<^verbatim>\<open>Get\<close> fails, the object with
  the member \<^verbatim>\<open>size\<close> when \<^verbatim>\<open>Get\<close> returns a size other than zero, and the empty
  object when it returns the size zero.
\<close>

theorem bulk_query:
  "Header_Get (Header r) ''Authorization'' = ''Bearer '' @ token s
   \<and> Method r = ''POST'' \<and> decode_query js (Body r) = Some req
   \<longrightarrow>
     sent_status (fst (handleAuth s (queryArtifacts js s) fresh r wd)) = 200
   \<and> disk (snd (handleAuth s (queryArtifacts js s) fresh r wd)) = disk wd
   \<and> rw_body (fst (handleAuth s (queryArtifacts js s) fresh r wd))
       = [Line (JObject (entries_of (rw_body (fst (handleAuth s (queryArtifacts js s) fresh r wd)))))]
   \<and> sorted (map fst (entries_of (rw_body (fst (handleAuth s (queryArtifacts js s) fresh r wd)))))
   \<and> distinct (map fst (entries_of (rw_body (fst (handleAuth s (queryArtifacts js s) fresh r wd)))))
   \<and> set (map fst (entries_of (rw_body (fst (handleAuth s (queryArtifacts js s) fresh r wd)))))
       = set (Hashes req)
   \<and> (\<forall>h \<in> set (Hashes req).
        map_of (entries_of (rw_body (fst (handleAuth s (queryArtifacts js s) fresh r wd)))) h
          = Some (case Get (storage s) h (disk wd) of
                    Inl err \<Rightarrow>
                      JObject [(''error'', JObject [(''message'', JString ''Artifact not found'')])]
                  | Inr (rd, n) \<Rightarrow> if n = 0 then JObject [] else JObject [(''size'', JInt n)]))"
proof
  assume a: "Header_Get (Header r) ''Authorization'' = ''Bearer '' @ token s
   \<and> Method r = ''POST'' \<and> decode_query js (Body r) = Some req"
  define wd1 where "wd1 = Printf (LogRequest (Method r) (URL_Path r)) wd"
  define m where "m = query_loop s (disk wd) (Hashes req)"
  have d1: "disk wd1 = disk wd" by (simp add: wd1_def Printf_def)
  have q: "queryArtifacts js s (newLoggingResponseWriter fresh) r wd1
      = (Write (Line (encode_response m)) (newLoggingResponseWriter fresh), wd1)"
    using a d1 by (simp add: queryArtifacts_def m_def)
  from encode_response_entries [OF query_loop_distinct [of s "disk wd" "Hashes req"]]
  obtain es where es: "encode_response m = JObject es" "sorted (map fst es)" "distinct (map fst es)"
    "set (map fst es) = set (map fst m)" "map_of es = map_option encode_ArtifactInfo \<circ> map_of m"
    unfolding m_def by blast
  have b: "rw_body (fst (handleAuth s (queryArtifacts js s) fresh r wd)) = [Line (JObject es)]"
    using a handleAuth_authorized_fst [of r s "queryArtifacts js s" fresh wd] q es(1)
    by (simp add: wd1_def rw_defs fresh_def)
  have e: "entries_of (rw_body (fst (handleAuth s (queryArtifacts js s) fresh r wd))) = es"
    by (simp add: b entries_of_def)
  have st: "sent_status (fst (handleAuth s (queryArtifacts js s) fresh r wd)) = 200"
    using a handleAuth_authorized_fst [of r s "queryArtifacts js s" fresh wd] q
    by (simp add: wd1_def rw_defs fresh_def sent_status_def)
  have dk: "disk (snd (handleAuth s (queryArtifacts js s) fresh r wd)) = disk wd"
    using a handleAuth_authorized_disk [of r s "queryArtifacts js s" fresh wd] q d1
    by (simp add: wd1_def)
  have look: "\<forall>h \<in> set (Hashes req). map_of es h
          = Some (case Get (storage s) h (disk wd) of
                    Inl err \<Rightarrow>
                      JObject [(''error'', JObject [(''message'', JString ''Artifact not found'')])]
                  | Inr (rd, n) \<Rightarrow> if n = 0 then JObject [] else JObject [(''size'', JInt n)])"
    using es(5) by (simp add: m_def query_loop_lookup encoded_entry)
  show "sent_status (fst (handleAuth s (queryArtifacts js s) fresh r wd)) = 200
   \<and> disk (snd (handleAuth s (queryArtifacts js s) fresh r wd)) = disk wd
   \<and> rw_body (fst (handleAuth s (queryArtifacts js s) fresh r wd))
       = [Line (JObject (entries_of (rw_body (fst (handleAuth s (queryArtifacts js s) fresh r wd)))))]
   \<and> sorted (map fst (entries_of (rw_body (fst (handleAuth s (queryArtifacts js s) fresh r wd)))))
   \<and> distinct (map fst (entries_of (rw_body (fst (handleAuth s (queryArtifacts js s) fresh r wd)))))
   \<and> set (map fst (entries_of (rw_body (fst (handleAuth s (queryArtifacts js s) fresh r wd)))))
       = set (Hashes req)
   \<and> (\<forall>h \<in> set (Hashes req).
        map_of (entries_of (rw_body (fst (handleAuth s (queryArtifacts js s) fresh r wd)))) h
          = Some (case Get (storage s) h (disk wd) of
                    Inl err \<Rightarrow>
                      JObject [(''error'', JObject [(''message'', JString ''Artifact not found'')])]
                  | Inr (rd, n) \<Rightarrow> if n = 0 then JObject [] else JObject [(''size'', JInt n)]))"
    unfolding e using st dk b es(2,3,4) look query_loop_keys [of s "disk wd" "Hashes req"]
    by (simp add: m_def)
qed

theorem bulk_query_witness:
  \<open>map_of (entries_of (rw_body (fst (handleAuth ex_server (queryArtifacts ex_decoders ex_server) fresh
        (ex_request ''POST'' ''/v8/artifacts'' [(''Authorization'', ''Bearer test'')]
           ''{"hashes":["abc123","zzz999"]}'') ex_world)))) ''abc123''
     = Some (JObject [(''size'', JInt 5)])
   \<and> map_of (entries_of (rw_body (fst (handleAuth ex_server (queryArtifacts ex_decoders ex_server) fresh
        (ex_request ''POST'' ''/v8/artifacts'' [(''Authorization'', ''Bearer test'')]
           ''{"hashes":["abc123","zzz999"]}'') ex_world)))) ''zzz999''
     = Some (JObject [(''error'', JObject [(''message'', JString ''Artifact not found'')])])
   \<and> map fst (entries_of (rw_body (fst (handleAuth ex_server (queryArtifacts ex_decoders ex_server) fresh
        (ex_request ''POST'' ''/v8/artifacts'' [(''Authorization'', ''Bearer test'')]
           ''{"hashes":["abc123","zzz999"]}'') ex_world)))) = [''abc123'', ''zzz999'']\<close>
proof -
  have d: \<open>decode_query ex_decoders (Body (ex_request ''POST'' ''/v8/artifacts''
           [(''Authorization'', ''Bearer test'')] ''{"hashes":["abc123","zzz999"]}''))
        = Some \<lparr>Hashes = [''abc123'', ''zzz999'']\<rparr>\<close>
    by code_simp
  have a: \<open>Header_Get (Header (ex_request ''POST'' ''/v8/artifacts''
           [(''Authorization'', ''Bearer test'')] ''{"hashes":["abc123","zzz999"]}'')) ''Authorization''
        = ''Bearer '' @ token ex_server\<close>
    by code_simp
  have m: \<open>Method (ex_request ''POST'' ''/v8/artifacts''
           [(''Authorization'', ''Bearer test'')] ''{"hashes":["abc123","zzz999"]}'') = ''POST''\<close>
    by (simp add: ex_request_def)
  have g1: "Get (storage ex_server) ''abc123'' (disk ex_world)
      = Inr (\<lparr>rdata = ''hello'', rfail = None\<rparr>, 5)"
    by code_simp
  have g2: "Get (storage ex_server) ''zzz999'' (disk ex_world) = Inl ArtifactNotFound"
    by code_simp
  have k: \<open>map fst (entries_of (rw_body (fst (handleAuth ex_server (queryArtifacts ex_decoders ex_server)
        fresh (ex_request ''POST'' ''/v8/artifacts'' [(''Authorization'', ''Bearer test'')]
           ''{"hashes":["abc123","zzz999"]}'') ex_world)))) = [''abc123'', ''zzz999'']\<close>
    by code_simp
  show ?thesis
    using bulk_query [where r = \<open>ex_request ''POST'' ''/v8/artifacts''
            [(''Authorization'', ''Bearer test'')] ''{"hashes":["abc123","zzz999"]}''\<close>
          and s = ex_server and js = ex_decoders
          and req = "\<lparr>Hashes = [''abc123'', ''zzz999'']\<rparr>" and wd = ex_world]
      d a m g1 g2 k
    by simp
qed

text \<open>
  As the claim is written it fails for an artifact of size zero: the artifact
  \<^verbatim>\<open>empty\<close> is retrievable with size 0, and its member of the response is the empty
  object, without \<^verbatim>\<open>size\<close>.
\<close>

theorem bulk_query_counterexample:
  \<open>Get (storage ex_server) ''empty'' (disk ex_world) = Inr (\<lparr>rdata = [], rfail = None\<rparr>, 0)
   \<and> rw_body (fst (handleAuth ex_server (queryArtifacts ex_decoders ex_server) fresh
        (ex_request ''POST'' ''/v8/artifacts'' [(''Authorization'', ''Bearer test'')]
           ''{"hashes":["empty"]}'') ex_world))
     = [Line (JObject [(''empty'', JObject [])])]\<close>
  by code_simp

section \<open>Upload without a length\<close>

text \<open>
  Claim C7. An authorized \<^verbatim>\<open>PUT\<close> on the artifact path whose request has no
  \<^verbatim>\<open>Content-Length\<close> header is answered with 400, for every hash and every body; the
  file system is left as it was, and the outcome is the same whatever the body is, so
  \<^verbatim>\<open>Store\<close> did not run and no artifact was made.
\<close>

theorem upload_requires_content_length:
  "Header_Get (Header r) ''Authorization'' = ''Bearer '' @ token s
   \<and> Method r = ''PUT'' \<and> map_of (Header r) ''Content-Length'' = None
   \<longrightarrow>
     sent_status (fst (handleAuth s (handleArtifact s) fresh r wd)) = 400
   \<and> disk (snd (handleAuth s (handleArtifact s) fresh r wd)) = disk wd
   \<and> (\<forall>b. handleAuth s (handleArtifact s) fresh (r\<lparr>Body := b\<rparr>) wd
           = handleAuth s (handleArtifact s) fresh r wd)"
proof (intro impI conjI allI)
  assume a: "Header_Get (Header r) ''Authorization'' = ''Bearer '' @ token s
   \<and> Method r = ''PUT'' \<and> map_of (Header r) ''Content-Length'' = None"
  define wd1 where "wd1 = Printf (LogRequest (Method r) (URL_Path r)) wd"
  have h: "handleArtifact s (newLoggingResponseWriter fresh) r' wd1
      = (http_Error (newLoggingResponseWriter fresh) ''Content-Length required'' 400, wd1)"
    if "Method r' = ''PUT''" "Header r' = Header r" for r'
    using a that by (simp add: handleArtifact_def uploadArtifact_def Let_def Header_Get_absent)
  show "sent_status (fst (handleAuth s (handleArtifact s) fresh r wd)) = 400"
    using a handleAuth_authorized_fst [of r s "handleArtifact s" fresh wd] h [of r]
      http_Error_status [OF fresh_unwritten]
    by (simp add: wd1_def sent_status_def)
  show "disk (snd (handleAuth s (handleArtifact s) fresh r wd)) = disk wd"
    using a handleAuth_authorized_disk [of r s "handleArtifact s" fresh wd] h [of r]
    by (simp add: wd1_def Printf_def)
  fix b
  show "handleAuth s (handleArtifact s) fresh (r\<lparr>Body := b\<rparr>) wd
           = handleAuth s (handleArtifact s) fresh r wd"
    using a h [of r] h [of "r\<lparr>Body := b\<rparr>"]
    by (intro handleAuth_authorized_body) (simp_all add: wd1_def)
qed

theorem upload_requires_content_length_witness:
  "sent_status (fst (handleAuth ex_server (handleArtifact ex_server) fresh
       (ex_request ''PUT'' ''/v8/artifacts/new1'' [(''Authorization'', ''Bearer test'')] ''payload'')
       ex_world)) = 400
   \<and> disk (snd (handleAuth ex_server (handleArtifact ex_server) fresh
       (ex_request ''PUT'' ''/v8/artifacts/new1'' [(''Authorization'', ''Bearer test'')] ''payload'')
       ex_world)) = ex_fs"
  using upload_requires_content_length [of
      "ex_request ''PUT'' ''/v8/artifacts/new1'' [(''Authorization'', ''Bearer test'')] ''payload''"
      ex_server ex_world]
  by (simp add: ex_request_def ex_server_def ex_world_def Header_Get_def)

section \<open>The existence check\<close>

text \<open>
  Claim C8. An authorized \<^verbatim>\<open>HEAD\<close> on the artifact path answers 200 when
  \<^verbatim>\<open>Exists\<close> returns true, 404 when it returns false and 500 when it fails with an
  error; the file system is not changed, and in the success case the body is empty.
\<close>

theorem check_status:
  "Header_Get (Header r) ''Authorization'' = ''Bearer '' @ token s \<and> Method r = ''HEAD''
   \<longrightarrow>
     sent_status (fst (handleAuth s (handleArtifact s) fresh r wd))
       = (case Exists (storage s) (strings_TrimPrefix (URL_Path r) ''/v8/artifacts/'') (disk wd) of
            Inr True \<Rightarrow> 200 | Inr False \<Rightarrow> 404 | Inl err \<Rightarrow> 500)
   \<and> (Exists (storage s) (strings_TrimPrefix (URL_Path r) ''/v8/artifacts/'') (disk wd) = Inr True
        \<longrightarrow> rw_body (fst (handleAuth s (handleArtifact s) fresh r wd)) = [])
   \<and> disk (snd (handleAuth s (handleArtifact s) fresh r wd)) = disk wd"
proof
  assume a: "Header_Get (Header r) ''Authorization'' = ''Bearer '' @ token s \<and> Method r = ''HEAD''"
  define wd1 where "wd1 = Printf (LogRequest (Method r) (URL_Path r)) wd"
  define hash where "hash = strings_TrimPrefix (URL_Path r) ''/v8/artifacts/''"
  define lrw where "lrw = newLoggingResponseWriter fresh"
  have d1: "disk wd1 = disk wd" by (simp add: wd1_def Printf_def)
  have u: "rw_status (embedded lrw) = None" "rw_body (embedded lrw) = []"
    by (simp_all add: lrw_def newLoggingResponseWriter_def fresh_def)
  have h: "handleArtifact s lrw r wd1 = checkArtifact s lrw r hash wd1"
    using a by (simp add: handleArtifact_def hash_def Let_def)
  have f: "fst (handleAuth s (handleArtifact s) fresh r wd)
      = embedded (fst (checkArtifact s lrw r hash wd1))"
    using a handleAuth_authorized_fst [of r s "handleArtifact s" fresh wd] h
    by (simp add: lrw_def wd1_def)
  have k: "disk (snd (handleAuth s (handleArtifact s) fresh r wd))
      = disk (snd (checkArtifact s lrw r hash wd1))"
    using a handleAuth_authorized_disk [of r s "handleArtifact s" fresh wd] h
    by (simp add: lrw_def wd1_def)
  have c: "sent_status (embedded (fst (checkArtifact s lrw r hash wd1)))
       = (case Exists (storage s) hash (disk wd) of
            Inr True \<Rightarrow> 200 | Inr False \<Rightarrow> 404 | Inl err \<Rightarrow> 500)
     \<and> (Exists (storage s) hash (disk wd) = Inr True
          \<longrightarrow> rw_body (embedded (fst (checkArtifact s lrw r hash wd1))) = [])
     \<and> disk (snd (checkArtifact s lrw r hash wd1)) = disk wd"
    using u d1
    by (auto simp: checkArtifact_def sent_status_def http_Error_status Printf_def
          WriteHeader_def rw_WriteHeader_def split: sum.splits bool.splits)
  show "sent_status (fst (handleAuth s (handleArtifact s) fresh r wd))
       = (case Exists (storage s) (strings_TrimPrefix (URL_Path r) ''/v8/artifacts/'') (disk wd) of
            Inr True \<Rightarrow> 200 | Inr False \<Rightarrow> 404 | Inl err \<Rightarrow> 500)
   \<and> (Exists (storage s) (strings_TrimPrefix (URL_Path r) ''/v8/artifacts/'') (disk wd) = Inr True
        \<longrightarrow> rw_body (fst (handleAuth s (handleArtifact s) fresh r wd)) = [])
   \<and> disk (snd (handleAuth s (handleArtifact s) fresh r wd)) = disk wd"
    using c unfolding f k hash_def by simp
qed

theorem check_status_witness:
  "sent_status (fst (handleAuth ex_server (handleArtifact ex_server) fresh
       (ex_request ''HEAD'' ''/v8/artifacts/abc123'' [(''Authorization'', ''Bearer test'')] [])
       ex_world)) = 200
   \<and> rw_body (fst (handleAuth ex_server (handleArtifact ex_server) fresh
       (ex_request ''HEAD'' ''/v8/artifacts/abc123'' [(''Authorization'', ''Bearer test'')] [])
       ex_world)) = []
   \<and> sent_status (fst (handleAuth ex_server (handleArtifact ex_server) fresh
       (ex_request ''HEAD'' ''/v8/artifacts/zzz999'' [(''Authorization'', ''Bearer test'')] [])
       ex_world)) = 404
   \<and> sent_status (fst (handleAuth ex_server (handleArtifact ex_server) fresh
       (ex_request ''HEAD'' ''/v8/artifacts/abc123/x'' [(''Authorization'', ''Bearer test'')] [])
       ex_world)) = 500"
proof -
  have e1: "Exists (storage ex_server)
      (strings_TrimPrefix ''/v8/artifacts/abc123'' ''/v8/artifacts/'') ex_fs = Inr True"
    by code_simp
  have e2: "Exists (storage ex_server)
      (strings_TrimPrefix ''/v8/artifacts/zzz999'' ''/v8/artifacts/'') ex_fs = Inr False"
    by code_simp
  have e3: "Exists (storage ex_server)
      (strings_TrimPrefix ''/v8/artifacts/abc123/x'' ''/v8/artifacts/'') ex_fs = Inl ENOTDIR"
    by code_simp
  have t: "token ex_server = ''test''" by (simp add: ex_server_def)
  show ?thesis
    using check_status [of
            "ex_request ''HEAD'' ''/v8/artifacts/abc123'' [(''Authorization'', ''Bearer test'')] []"
            ex_server ex_world]
          check_status [of
            "ex_request ''HEAD'' ''/v8/artifacts/zzz999'' [(''Authorization'', ''Bearer test'')] []"
            ex_server ex_world]
          check_status [of
            "ex_request ''HEAD'' ''/v8/artifacts/abc123/x'' [(''Authorization'', ''Bearer test'')] []"
            ex_server ex_world]
          e1 e2 e3 t
    by (simp add: ex_request_def ex_world_def Header_Get_def)
qed

section \<open>The response line of the log\<close>

lemma response_codes_append:
  "response_codes (xs @ ys) = response_codes xs @ response_codes ys"
  by (induction xs rule: response_codes.induct) simp_all

lemma response_codes_Printf:
  "response_codes (logged (Printf l wd)) = response_codes (logged wd) @ response_codes [l]"
  by (simp add: Printf_def response_codes_append)

lemma tracked_http_Error: "unwritten w \<Longrightarrow> tracked (http_Error w msg c)"
  by (simp add: unwritten_def tracked_def http_Error_def rw_defs sent_status_def)

lemma tracked_WriteHeader: "unwritten w \<Longrightarrow> tracked (WriteHeader c w)"
  by (simp add: unwritten_def tracked_def rw_defs sent_status_def)

lemma tracked_Write: "unwritten w \<Longrightarrow> tracked (Write ch w)"
  by (simp add: unwritten_def tracked_def rw_defs sent_status_def)

lemma tracked_WriteHeader_Write: "unwritten w \<Longrightarrow> tracked (Write ch (WriteHeader c w))"
  by (simp add: unwritten_def tracked_def rw_defs sent_status_def)

lemma unwritten_tracked: "unwritten w \<Longrightarrow> tracked w"
  by (simp add: unwritten_def tracked_def sent_status_def)

lemma unwritten_Header_Set: "unwritten w \<Longrightarrow> unwritten (Header_Set k v w)"
  by (simp add: unwritten_def Header_Set_def)

lemma unwritten_new: "rw_status w = None \<Longrightarrow> unwritten (newLoggingResponseWriter w)"
  by (simp add: unwritten_def newLoggingResponseWriter_def)

lemma events_logged:
  "response_codes (logged (foldl (\<lambda>wd' event.
       Printf (LogCacheEvent (Hash event) (Source event) (Event event) (Duration event)) wd')
     wd events)) = response_codes (logged wd)"
  by (induction events arbitrary: wd) (simp_all add: response_codes_Printf)

lemma recordEvents_tracked:
  assumes "unwritten w"
  shows "tracked (fst (recordEvents js s w r wd))"
    and "response_codes (logged (snd (recordEvents js s w r wd))) = response_codes (logged wd)"
  using assms
  by (auto simp: recordEvents_def tracked_http_Error tracked_WriteHeader events_logged
        split: option.splits)

lemma getStatus_tracked:
  assumes "unwritten w"
  shows "tracked (fst (getStatus s w r wd))"
    and "response_codes (logged (snd (getStatus s w r wd))) = response_codes (logged wd)"
  using assms by (auto simp: getStatus_def tracked_http_Error tracked_Write)

lemma queryArtifacts_tracked:
  assumes "unwritten w"
  shows "tracked (fst (queryArtifacts js s w r wd))"
    and "response_codes (logged (snd (queryArtifacts js s w r wd))) = response_codes (logged wd)"
  using assms
  by (auto simp: queryArtifacts_def tracked_http_Error tracked_Write split: option.splits)

lemma downloadArtifact_tracked:
  assumes "unwritten w"
  shows "tracked (fst (downloadArtifact s w r hash wd))"
    and "response_codes (logged (snd (downloadArtifact s w r hash wd))) = response_codes (logged wd)"
proof -
  have u: "unwritten (Header_Set ''Content-Type'' ''application/octet-stream''
              (Header_Set ''Content-Length'' v w))" for v
    using assms by (simp add: unwritten_Header_Set)
  show "tracked (fst (downloadArtifact s w r hash wd))"
    using assms tracked_Write [OF u] unwritten_tracked [OF u]
    by (auto simp: downloadArtifact_def Let_def io_Copy_to_response_def tracked_http_Error
          split: sum.splits option.splits)
  show "response_codes (logged (snd (downloadArtifact s w r hash wd))) = response_codes (logged wd)"
    by (auto simp: downloadArtifact_def Let_def io_Copy_to_response_def response_codes_Printf
          split: sum.splits option.splits)
qed

lemma uploadArtifact_tracked:
  assumes "unwritten w"
  shows "tracked (fst (uploadArtifact s w r hash wd))"
    and "response_codes (logged (snd (uploadArtifact s w r hash wd))) = response_codes (logged wd)"
  using assms
  by (auto simp: uploadArtifact_def Let_def tracked_http_Error tracked_WriteHeader_Write
        response_codes_Printf split: prod.splits option.splits)

lemma checkArtifact_tracked:
  assumes "unwritten w"
  shows "tracked (fst (checkArtifact s w r hash wd))"
    and "response_codes (logged (snd (checkArtifact s w r hash wd))) = response_codes (logged wd)"
  using assms
  by (auto simp: checkArtifact_def tracked_http_Error tracked_WriteHeader response_codes_Printf
        split: sum.splits)

lemma handleArtifact_tracked:
  assumes "unwritten w"
  shows "tracked (fst (handleArtifact s w r wd))"
    and "response_codes (logged (snd (handleArtifact s w r wd))) = response_codes (logged wd)"
  using downloadArtifact_tracked [OF assms] uploadArtifact_tracked [OF assms]
    checkArtifact_tracked [OF assms] tracked_http_Error [OF assms]
  by (simp_all add: handleArtifact_def Let_def)

lemma handleAuth_logs_status:
  assumes w: "rw_status w = None"
    and n: "\<And>lrw r wd. unwritten lrw \<Longrightarrow>
              tracked (fst (next lrw r wd))
              \<and> response_codes (logged (snd (next lrw r wd))) = response_codes (logged wd)"
  shows "response_codes (logged (snd (handleAuth s next w r wd)))
           = response_codes (logged wd) @ [sent_status (fst (handleAuth s next w r wd))]"
proof -
  define lrw where "lrw = newLoggingResponseWriter w"
  define wd1 where "wd1 = Printf (LogRequest (Method r) (URL_Path r)) wd"
  have u: "unwritten lrw" using w by (simp add: lrw_def unwritten_new)
  have l1: "response_codes (logged wd1) = response_codes (logged wd)"
    by (simp add: wd1_def response_codes_Printf)
  have e: "sent_status (embedded (http_Error lrw ''Unauthorized'' 401)) = 401"
    using tracked_http_Error [OF u, of "''Unauthorized''" 401]
    by (simp add: tracked_def http_Error_statusCode)
  obtain lrw' wd2 where nx: "next lrw r wd1 = (lrw', wd2)" by (cases "next lrw r wd1")
  have t: "statusCode lrw' = sent_status (embedded lrw')"
    and l2: "response_codes (logged wd2) = response_codes (logged wd)"
    using n [OF u, of r wd1] nx l1 by (simp_all add: tracked_def)
  show ?thesis
    using e t l1 l2 nx
    by (simp add: handleAuth_def Let_def lrw_def [symmetric] wd1_def [symmetric]
          response_codes_Printf)
qed

text \<open>
  Claim C9. On every route that \<^verbatim>\<open>main\<close> registers and for every request, whether it
  is rejected by the gate or handled, and whatever the handler answers, the log gains
  exactly one response line, and the status recorded in it is the status sent to the
  client: the one of the first \<^verbatim>\<open>WriteHeader\<close> call that reaches the server's writer,
  or 200 when the handler only writes a body or writes nothing.
\<close>

theorem one_response_line:
  "(pat, h) \<in> set (routes js s) \<longrightarrow>
     response_codes (logged (snd (h fresh r wd)))
       = response_codes (logged wd) @ [sent_status (fst (h fresh r wd))]"
proof
  assume "(pat, h) \<in> set (routes js s)"
  then consider "h = handleAuth s (recordEvents js s)" | "h = handleAuth s (getStatus s)"
    | "h = handleAuth s (handleArtifact s)" | "h = handleAuth s (queryArtifacts js s)"
    by (auto simp: routes_def)
  then show "response_codes (logged (snd (h fresh r wd)))
       = response_codes (logged wd) @ [sent_status (fst (h fresh r wd))]"
  proof cases
    case 1
    then show ?thesis
      using handleAuth_logs_status [of fresh "recordEvents js s" s r wd] recordEvents_tracked
      by (simp add: fresh_def)
  next
    case 2
    then show ?thesis
      using handleAuth_logs_status [of fresh "getStatus s" s r wd] getStatus_tracked
      by (simp add: fresh_def)
  next
    case 3
    then show ?thesis
      using handleAuth_logs_status [of fresh "handleArtifact s" s r wd] handleArtifact_tracked
      by (simp add: fresh_def)
  next
    case 4
    then show ?thesis
      using handleAuth_logs_status [of fresh "queryArtifacts js s" s r wd] queryArtifacts_tracked
      by (simp add: fresh_def)
  qed
qed

theorem one_response_line_witness:
  "(''/v8/artifacts/'', handleAuth ex_server (handleArtifact ex_server))
      \<in> set (routes ex_decoders ex_server)
   \<and> response_codes (logged (snd (handleAuth ex_server (handleArtifact ex_server) fresh
        (ex_request ''GET'' ''/v8/artifacts/zzz999'' [(''Authorization'', ''Bearer test'')] [])
        ex_world))) = [404]
   \<and> sent_status (fst (handleAuth ex_server (handleArtifact ex_server) fresh
        (ex_request ''GET'' ''/v8/artifacts/zzz999'' [(''Authorization'', ''Bearer test'')] [])
        ex_world)) = 404"
proof -
  have r: "(''/v8/artifacts/'', handleAuth ex_server (handleArtifact ex_server))
      \<in> set (routes ex_decoders ex_server)"
    by (simp add: routes_def)
  have s: "sent_status (fst (handleAuth ex_server (handleArtifact ex_server) fresh
        (ex_request ''GET'' ''/v8/artifacts/zzz999'' [(''Authorization'', ''Bearer test'')] [])
        ex_world)) = 404"
    by code_simp
  have l: "response_codes (logged ex_world) = []"
    by (simp add: ex_world_def)
  show ?thesis
    using r s l one_response_line [of "''/v8/artifacts/''"
        "handleAuth ex_server (handleArtifact ex_server)" ex_decoders ex_server
        "ex_request ''GET'' ''/v8/artifacts/zzz999'' [(''Authorization'', ''Bearer test'')] []"
        ex_world]
    by simp
qed

section \<open>The empty hash\<close>

text \<open>
  Claim C10. Once the constructor has returned a storage for a base path, \<^verbatim>\<open>Exists\<close>
  of the empty hash is true without any upload, on the file system the constructor
  leaves and after any store operations that follow: the path of the empty hash is the
  storage directory, which the constructor has made and no operation removes. So an
  authorized \<^verbatim>\<open>HEAD\<close> of \<^verbatim>\<open>/v8/artifacts/\<close> answers 200.
\<close>

theorem empty_hash_exists:
  "NewFileSystemStorage base fs = (fs', Inr st) \<longrightarrow>
     (\<forall>ops. Exists st [] (run_ops st ops fs') = Inr True
        \<and> (\<forall>r t lg. Method r = ''HEAD'' \<and> URL_Path r = ''/v8/artifacts/''
              \<and> Header_Get (Header r) ''Authorization'' = ''Bearer '' @ t \<longrightarrow>
            sent_status (fst (handleAuth \<lparr>storage = st, token = t\<rparr>
                (handleArtifact \<lparr>storage = st, token = t\<rparr>) fresh r
                \<lparr>disk = run_ops st ops fs', logged = lg\<rparr>)) = 200))"
proof (intro impI conjI allI)
  fix ops
  assume a: "NewFileSystemStorage base fs = (fs', Inr st)"
  from storage_directory_after_new [OF a] obtain p where
    "namei fs' (filepath_Join [basePath st, []]) = Inr p" "is_directory (map_of (nodes fs') p)"
    by blast
  from directory_kept_by_ops [OF this, of st ops]
  show e: "Exists st [] (run_ops st ops fs') = Inr True"
    by (simp add: Exists_directory)
  fix r :: Request and t lg
  assume b: "Method r = ''HEAD'' \<and> URL_Path r = ''/v8/artifacts/''
          \<and> Header_Get (Header r) ''Authorization'' = ''Bearer '' @ t"
  show "sent_status (fst (handleAuth \<lparr>storage = st, token = t\<rparr>
            (handleArtifact \<lparr>storage = st, token = t\<rparr>) fresh r
            \<lparr>disk = run_ops st ops fs', logged = lg\<rparr>)) = 200"
    using b e
      handleAuth_authorized_fst [of r "\<lparr>storage = st, token = t\<rparr>"
        "handleArtifact \<lparr>storage = st, token = t\<rparr>" fresh
        "\<lparr>disk = run_ops st ops fs', logged = lg\<rparr>"]
    by (simp add: handleArtifact_def checkArtifact_def strings_TrimPrefix_def strings_HasPrefix_def
          Printf_def rw_defs fresh_def sent_status_def)
qed

theorem empty_hash_exists_witness:
  "Exists \<lparr>basePath = ''./turbo-cache''\<rparr> []
      (run_ops \<lparr>basePath = ''./turbo-cache''\<rparr>
         [OpStore ''abc123'' \<lparr>rdata = ''hello'', rfail = None\<rparr>]
         (fst (NewFileSystemStorage ''./turbo-cache'' ex_boot_fs)))
     = Inr True
   \<and> sent_status (fst (handleAuth \<lparr>storage = \<lparr>basePath = ''./turbo-cache''\<rparr>, token = ''test''\<rparr>
        (handleArtifact \<lparr>storage = \<lparr>basePath = ''./turbo-cache''\<rparr>, token = ''test''\<rparr>) fresh
        (ex_request ''HEAD'' ''/v8/artifacts/'' [(''Authorization'', ''Bearer test'')] [])
        \<lparr>disk = run_ops \<lparr>basePath = ''./turbo-cache''\<rparr> []
                  (fst (NewFileSystemStorage ''./turbo-cache'' ex_boot_fs)),
          logged = []\<rparr>)) = 200"
proof -
  have n: "snd (NewFileSystemStorage ''./turbo-cache'' ex_boot_fs)
      = Inr \<lparr>basePath = ''./turbo-cache''\<rparr>"
    by code_simp
  then have h: "NewFileSystemStorage ''./turbo-cache'' ex_boot_fs
      = (fst (NewFileSystemStorage ''./turbo-cache'' ex_boot_fs), Inr \<lparr>basePath = ''./turbo-cache''\<rparr>)"
    by (simp add: prod_eq_iff)
  have q: "Method (ex_request ''HEAD'' ''/v8/artifacts/'' [(''Authorization'', ''Bearer test'')] [])
        = ''HEAD''
      \<and> URL_Path (ex_request ''HEAD'' ''/v8/artifacts/'' [(''Authorization'', ''Bearer test'')] [])
        = ''/v8/artifacts/''
      \<and> Header_Get (Header (ex_request ''HEAD'' ''/v8/artifacts/''
          [(''Authorization'', ''Bearer test'')] [])) ''Authorization'' = ''Bearer '' @ ''test''"
    by (simp add: ex_request_def Header_Get_def)
  from empty_hash_exists [of "''./turbo-cache''" ex_boot_fs
      "fst (NewFileSystemStorage ''./turbo-cache'' ex_boot_fs)" "\<lparr>basePath = ''./turbo-cache''\<rparr>"] h
  have a: "\<forall>ops. Exists \<lparr>basePath = ''./turbo-cache''\<rparr> []
        (run_ops \<lparr>basePath = ''./turbo-cache''\<rparr> ops
           (fst (NewFileSystemStorage ''./turbo-cache'' ex_boot_fs))) = Inr True
      \<and> (\<forall>r t lg. Method r = ''HEAD'' \<and> URL_Path r = ''/v8/artifacts/''
          \<and> Header_Get (Header r) ''Authorization'' = ''Bearer '' @ t \<longrightarrow>
        sent_status (fst (handleAuth \<lparr>storage = \<lparr>basePath = ''./turbo-cache''\<rparr>, token = t\<rparr>
            (handleArtifact \<lparr>storage = \<lparr>basePath = ''./turbo-cache''\<rparr>, token = t\<rparr>) fresh r
            \<lparr>disk = run_ops \<lparr>basePath = ''./turbo-cache''\<rparr> ops
                      (fst (NewFileSystemStorage ''./turbo-cache'' ex_boot_fs)),
              logged = lg\<rparr>)) = 200)"
    by blast
  show ?thesis using a q by blast
qed

end
